theory Spec2Isabelle
  imports Main "HOL-Library.Sublist"
begin

section \<open>Pure paths (pathlib, POSIX flavour)\<close>

text \<open>
  \<^verbatim>\<open>pathlib.Path\<close> on a POSIX system: a path is its root (\<open>''''\<close> for a relative path,
  \<open>''/''\<close>, or \<open>''//''\<close> when the string starts with exactly two slashes) and the list of its
  components. Parsing drops empty components and \<open>''.''\<close>, and keeps \<open>''..''\<close>.
\<close>

record path =
  root :: string
  parts :: "string list"

datatype error = ValueError | OSError | AttributeError | RuntimeError | KeyError string

fun split_sep :: "string \<Rightarrow> string list" where
  "split_sep [] = [[]]"
| "split_sep (c # cs) =
     (if c = CHR ''/'' then [] # split_sep cs
      else (case split_sep cs of [] \<Rightarrow> [[c]] | w # ws \<Rightarrow> (c # w) # ws))"

definition parse_root :: "string \<Rightarrow> string" where
  "parse_root s =
     (let n = length (takeWhile (\<lambda>c. c = CHR ''/'') s)
      in if n = 0 then [] else if n = 2 then ''//'' else ''/'')"

definition Path :: "string \<Rightarrow> path" where
  "Path s = \<lparr>root = parse_root s,
            parts = filter (\<lambda>x. x \<noteq> [] \<and> x \<noteq> ''.'') (split_sep s)\<rparr>"

fun sep_join :: "string list \<Rightarrow> string" where
  "sep_join [] = []"
| "sep_join [x] = x"
| "sep_join (x # y # ys) = x @ ''/'' @ sep_join (y # ys)"

definition str :: "path \<Rightarrow> string" where
  "str p = (if root p = [] \<and> parts p = [] then ''.'' else root p @ sep_join (parts p))"

definition is_absolute :: "path \<Rightarrow> bool" where
  "is_absolute p = (root p \<noteq> [])"

definition joinpath :: "path \<Rightarrow> path \<Rightarrow> path" where
  "joinpath a b = (if is_absolute b then b else \<lparr>root = root a, parts = parts a @ parts b\<rparr>)"

definition parent :: "path \<Rightarrow> path" where
  "parent p = (if parts p = [] then p else p\<lparr>parts := butlast (parts p)\<rparr>)"

definition relative_to :: "path \<Rightarrow> path \<Rightarrow> error + path" where
  "relative_to p other =
     (if root p = root other \<and> prefix (parts other) (parts p)
      then Inr \<lparr>root = [], parts = drop (length (parts other)) (parts p)\<rparr>
      else Inl ValueError)"

definition CONVERTED_DIR_NAME :: string where
  \<comment> \<open>Modelled from the spec: the constant of \<^verbatim>\<open>pydicer.constants\<close> is not among the
     sources; the spec names the pool directory \<^verbatim>\<open>converted/\<close>.\<close>
  "CONVERTED_DIR_NAME = ''converted''"

section \<open>Tables\<close>

text \<open>
  A \<^verbatim>\<open>pd.Series\<close> describing one converted object: its label (\<open>name\<close>, the index value
  of the row it was taken from) and its columns. A \<^verbatim>\<open>pd.DataFrame\<close> is the list of its rows
  in order, each with its index label.
\<close>

record series =
  name :: int
  patient_id :: string
  hashed_uid :: string
  modality :: string
  path :: string

type_synonym dataframe = "series list"

definition reset_index :: "dataframe \<Rightarrow> dataframe" where
  \<comment> \<open>\<^verbatim>\<open>df.reset_index(drop=True)\<close>: the labels become 0, 1, 2, ...\<close>
  "reset_index df = map (\<lambda>(i, r). r\<lparr>name := int i\<rparr>) (enumerate 0 df)"

section \<open>The file system\<close>

text \<open>
  The disk is a map from normalised paths to nodes: a directory, a symbolic link with its
  target as written, or a regular file, which is modelled by the table that
  \<^verbatim>\<open>pd.read_csv\<close> reads from it (the columns are strings that pandas writes and reads back
  unchanged). Paths are resolved lexically: \<open>''..''\<close> cancels the component before it, and a
  symbolic link is followed when it is the last component of the path that is accessed, up
  to the 40 nested links that Linux allows. The root and the directory a relative path
  starts from always exist.
\<close>

datatype node = Dir | Symlink path | Csv dataframe

type_synonym filesystem = "path \<Rightarrow> node option"

fun norm_parts :: "bool \<Rightarrow> string list \<Rightarrow> string list \<Rightarrow> string list" where
  "norm_parts rooted acc [] = rev acc"
| "norm_parts rooted acc (c # cs) =
     (if c = ''..'' then
        (case acc of
           [] \<Rightarrow> if rooted then norm_parts rooted [] cs else norm_parts rooted [c] cs
         | a # as \<Rightarrow> if a = ''..'' then norm_parts rooted (c # acc) cs
                    else norm_parts rooted as cs)
      else norm_parts rooted (c # acc) cs)"

definition normpath :: "path \<Rightarrow> path" where
  "normpath p = \<lparr>root = root p, parts = norm_parts (root p \<noteq> []) [] (parts p)\<rparr>"

definition anchor :: "path \<Rightarrow> bool" where
  "anchor q = list_all (\<lambda>c. c = ''..'') (parts q)"

definition lookup :: "filesystem \<Rightarrow> path \<Rightarrow> node option" where
  "lookup fs p = (let q = normpath p in if anchor q then Some Dir else fs q)"

fun resolve :: "nat \<Rightarrow> filesystem \<Rightarrow> path \<Rightarrow> path option" where
  "resolve 0 fs p = None"
| "resolve (Suc n) fs p =
     (case lookup fs p of
        Some (Symlink t) \<Rightarrow> resolve n fs (joinpath (parent p) t)
      | _ \<Rightarrow> Some (normpath p))"

definition MAXSYMLINKS :: nat where
  "MAXSYMLINKS = 40"

definition stat :: "filesystem \<Rightarrow> path \<Rightarrow> node option" where
  "stat fs p = (case resolve MAXSYMLINKS fs p of None \<Rightarrow> None | Some q \<Rightarrow> lookup fs q)"

definition exists :: "filesystem \<Rightarrow> path \<Rightarrow> bool" where
  \<comment> \<open>\<^verbatim>\<open>Path.exists()\<close> follows links: a dangling link does not exist.\<close>
  "exists fs p = (stat fs p \<noteq> None)"

definition is_dir :: "filesystem \<Rightarrow> path \<Rightarrow> bool" where
  "is_dir fs p = (stat fs p = Some Dir)"

definition mkdir1 :: "filesystem \<Rightarrow> path \<Rightarrow> error + filesystem" where
  \<comment> \<open>\<^verbatim>\<open>os.mkdir\<close> under \<^verbatim>\<open>exist_ok=True\<close>: an existing directory is accepted.\<close>
  "mkdir1 fs p =
     (case lookup fs p of
        Some _ \<Rightarrow> if is_dir fs p then Inr fs else Inl OSError
      | None \<Rightarrow> if is_dir fs (parent p) then Inr (fs(normpath p \<mapsto> Dir)) else Inl OSError)"

fun mkdir_parents :: "filesystem \<Rightarrow> string \<Rightarrow> string list \<Rightarrow> (error + unit) \<times> filesystem" where
  "mkdir_parents fs r [] =
     (case mkdir1 fs \<lparr>root = r, parts = []\<rparr> of Inl e \<Rightarrow> (Inl e, fs) | Inr fs' \<Rightarrow> (Inr (), fs'))"
| "mkdir_parents fs r (c # outer) =
     (let p = \<lparr>root = r, parts = rev (c # outer)\<rparr> in
      if lookup fs p = None \<and> \<not> exists fs (parent p)
      then (case mkdir_parents fs r outer of
              (Inl e, fs') \<Rightarrow> (Inl e, fs')
            | (Inr _, fs') \<Rightarrow>
                (case mkdir1 fs' p of Inl e \<Rightarrow> (Inl e, fs') | Inr fs'' \<Rightarrow> (Inr (), fs'')))
      else (case mkdir1 fs p of Inl e \<Rightarrow> (Inl e, fs) | Inr fs' \<Rightarrow> (Inr (), fs')))"

definition mkdir :: "filesystem \<Rightarrow> path \<Rightarrow> (error + unit) \<times> filesystem" where
  \<comment> \<open>\<^verbatim>\<open>p.mkdir(parents=True, exist_ok=True)\<close>: a missing parent is created first.\<close>
  "mkdir fs p = mkdir_parents fs (root p) (rev (parts p))"

definition symlink_to :: "filesystem \<Rightarrow> path \<Rightarrow> path \<Rightarrow> error + filesystem" where
  "symlink_to fs p target =
     (if lookup fs p \<noteq> None then Inl OSError
      else if is_dir fs (parent p) then Inr (fs(normpath p \<mapsto> Symlink target))
      else Inl OSError)"

definition read_csv :: "filesystem \<Rightarrow> path \<Rightarrow> error + dataframe" where
  "read_csv fs p = (case stat fs p of Some (Csv df) \<Rightarrow> Inr df | _ \<Rightarrow> Inl OSError)"

definition to_csv :: "filesystem \<Rightarrow> dataframe \<Rightarrow> path \<Rightarrow> error + filesystem" where
  \<comment> \<open>Opening for writing follows links, replaces a regular file and creates a missing one
     in an existing directory.\<close>
  "to_csv fs df p =
     (case resolve MAXSYMLINKS fs p of
        None \<Rightarrow> Inl OSError
      | Some q \<Rightarrow>
          (case lookup fs q of
             Some (Csv _) \<Rightarrow> Inr (fs(q \<mapsto> Csv df))
           | Some _ \<Rightarrow> Inl OSError
           | None \<Rightarrow> if is_dir fs (parent q) then Inr (fs(q \<mapsto> Csv df)) else Inl OSError))"

section \<open>PrepareDataset\<close>

record PrepareDataset =
  working_directory :: path

definition PrepareDataset_init :: "string \<Rightarrow> PrepareDataset" where
  "PrepareDataset_init wd = \<lparr>working_directory = Path wd\<rparr>"

text \<open>
  \<^verbatim>\<open>add_object_to_dataset\<close> in the order of the source: the row is copied and an absolute
  path in it made relative to the working directory; the place of the link and its
  target are computed; the link is made unless something exists at its place; the
  manifest of the patient is merged and written.
\<close>

definition relative_row :: "PrepareDataset \<Rightarrow> series \<Rightarrow> error + series" where
  "relative_row self data_object_row =
     (let object_path = Path (path data_object_row)
      in if is_absolute object_path
         then (case relative_to object_path (working_directory self) of
                 Inl e \<Rightarrow> Inl e
               | Inr rel \<Rightarrow> Inr (data_object_row\<lparr>path := str rel\<rparr>))
         else Inr data_object_row)"

definition link_paths :: "PrepareDataset \<Rightarrow> string \<Rightarrow> series \<Rightarrow> error + path \<times> path" where
  "link_paths self dataset_name data_object_row =
     (let dataset_dir = joinpath (working_directory self) (Path dataset_name);
          object_path = Path (path data_object_row)
      in case relative_to object_path (Path CONVERTED_DIR_NAME) of
           Inl e \<Rightarrow> Inl e
         | Inr rel \<Rightarrow>
             (let symlink_path = joinpath dataset_dir rel
              in case relative_to (parent symlink_path) (working_directory self) of
                   Inl e \<Rightarrow> Inl e
                 | Inr up \<Rightarrow>
                     (let rel_part = sep_join (map (\<lambda>_. ''..'') (parts up));
                          src_path = Path (rel_part @ ''/'' @ str object_path)
                      in Inr (symlink_path, src_path))))"

definition place_link :: "filesystem \<Rightarrow> path \<Rightarrow> path \<Rightarrow> (error + unit) \<times> filesystem" where
  "place_link fs symlink_path src_path =
     (case mkdir fs (parent symlink_path) of
        (Inl e, fs1) \<Rightarrow> (Inl e, fs1)
      | (Inr _, fs1) \<Rightarrow>
          if exists fs1 symlink_path then (Inr (), fs1)
          else (case symlink_to fs1 symlink_path src_path of
                  Inl e \<Rightarrow> (Inl e, fs1)
                | Inr fs2 \<Rightarrow> (Inr (), fs2)))"

definition merge_rows :: "dataframe \<Rightarrow> series \<Rightarrow> dataframe" where
  "merge_rows df_converted data_object_row =
     (if length (filter (\<lambda>r. hashed_uid r = hashed_uid data_object_row) df_converted) = 0
      then df_converted @ [data_object_row]
      else df_converted)"

definition merge_manifest :: "filesystem \<Rightarrow> path \<Rightarrow> series \<Rightarrow> (error + unit) \<times> filesystem" where
  "merge_manifest fs dataset_dir data_object_row =
     (let pat_id = patient_id data_object_row;
          pat_dir = joinpath dataset_dir (Path pat_id);
          pat_converted_csv = joinpath pat_dir (Path ''converted.csv'')
      in case (if exists fs pat_converted_csv
               then (case read_csv fs pat_converted_csv of
                       Inl e \<Rightarrow> Inl e
                     | Inr df_converted \<Rightarrow> Inr (merge_rows df_converted data_object_row))
               else Inr [data_object_row]) of
           Inl e \<Rightarrow> (Inl e, fs)
         | Inr df_pat \<Rightarrow>
             (case to_csv fs (reset_index df_pat) (joinpath pat_dir (Path ''converted.csv'')) of
                Inl e \<Rightarrow> (Inl e, fs)
              | Inr fs' \<Rightarrow> (Inr (), fs')))"

definition add_object_to_dataset ::
  "PrepareDataset \<Rightarrow> string \<Rightarrow> series \<Rightarrow> filesystem \<Rightarrow> (error + unit) \<times> filesystem" where
  "add_object_to_dataset self dataset_name data_object_row fs =
     (let dataset_dir = joinpath (working_directory self) (Path dataset_name)
      in case relative_row self data_object_row of
           Inl e \<Rightarrow> (Inl e, fs)
         | Inr row \<Rightarrow>
             (case link_paths self dataset_name row of
                Inl e \<Rightarrow> (Inl e, fs)
              | Inr (symlink_path, src_path) \<Rightarrow>
                  (case place_link fs symlink_path src_path of
                     (Inl e, fs2) \<Rightarrow> (Inl e, fs2)
                   | (Inr _, fs2) \<Rightarrow> merge_manifest fs2 dataset_dir row)))"

fun apply_relative :: "path \<Rightarrow> string list \<Rightarrow> error + string list" where
  "apply_relative wd [] = Inr []"
| "apply_relative wd (p # ps) =
     (case relative_to (Path p) wd of
        Inl e \<Rightarrow> Inl e
      | Inr rel \<Rightarrow> (case apply_relative wd ps of Inl e \<Rightarrow> Inl e | Inr rs \<Rightarrow> Inr (str rel # rs)))"

fun add_rows :: "PrepareDataset \<Rightarrow> string \<Rightarrow> dataframe \<Rightarrow> filesystem \<Rightarrow> (error + unit) \<times> filesystem" where
  "add_rows self dataset_name [] fs = (Inr (), fs)"
| "add_rows self dataset_name (row # rows) fs =
     (case add_object_to_dataset self dataset_name row fs of
        (Inl e, fs') \<Rightarrow> (Inl e, fs')
      | (Inr _, fs') \<Rightarrow> add_rows self dataset_name rows fs')"

text \<open>
  \<^verbatim>\<open>prepare_from_dataframe\<close> returns its outcome, the caller's table as the call leaves
  it, and the disk. The column is assigned once every path has been rewritten, so a path
  that is not under the working directory raises before the table or the disk changes.
  The warning about a dataset directory that exists is logged only and has no part here.
\<close>

definition prepare_from_dataframe ::
  "PrepareDataset \<Rightarrow> string \<Rightarrow> dataframe \<Rightarrow> filesystem
     \<Rightarrow> (error + unit) \<times> dataframe \<times> filesystem" where
  "prepare_from_dataframe self dataset_name df_prepare fs =
     (case apply_relative (working_directory self) (map path df_prepare) of
        Inl e \<Rightarrow> (Inl e, df_prepare, fs)
      | Inr ps \<Rightarrow>
          (let df_prepare = map (\<lambda>(r, p). r\<lparr>path := p\<rparr>) (zip df_prepare ps)
           in case add_rows self dataset_name df_prepare fs of
                (res, fs') \<Rightarrow> (res, df_prepare, fs')))"

datatype preparation = Named string | Function "dataframe \<Rightarrow> dataframe" | Other

text \<open>
  \<^verbatim>\<open>prepare\<close>: the registry \<^verbatim>\<open>pydicer.dataset.functions\<close> and the reader
  \<^verbatim>\<open>read_converted_data\<close> are not among the sources and are parameters; the keyword
  arguments are part of the function that is passed.
\<close>

definition prepare ::
  "(string \<rightharpoonup> preparation) \<Rightarrow> (filesystem \<Rightarrow> path \<Rightarrow> string list option \<Rightarrow> dataframe)
     \<Rightarrow> PrepareDataset \<Rightarrow> string \<Rightarrow> preparation \<Rightarrow> string list option \<Rightarrow> filesystem
     \<Rightarrow> (error + unit) \<times> filesystem" where
  "prepare functions read_converted_data self dataset_name preparation_function patients fs =
     (case (case preparation_function of
              Named n \<Rightarrow> (case functions n of None \<Rightarrow> Inl AttributeError | Some f \<Rightarrow> Inr f)
            | f \<Rightarrow> Inr f) of
        Inl e \<Rightarrow> (Inl e, fs)
      | Inr (Function f) \<Rightarrow>
          (let df_converted = read_converted_data fs (working_directory self) patients;
               df_clean_data = f df_converted
           in case prepare_from_dataframe self dataset_name df_clean_data fs of
                (res, _, fs') \<Rightarrow> (res, fs'))
      | Inr _ \<Rightarrow> (Inl AttributeError, fs))"

section \<open>StructureSet\<close>

text \<open>
  What the accessor sees of the disk: the names in a directory, the volume that
  \<^verbatim>\<open>sitk.ReadImage\<close> returns for a file name (none when it raises), the directories, the
  JSON documents, and the log of the calls of \<^verbatim>\<open>sitk.ReadImage\<close>. A JSON document is
  modelled by the value that \<^verbatim>\<open>json.dump\<close> is given.
\<close>

datatype json = JString string | JArray "json list" | JObject "(string \<times> json) list"

type_synonym mapping = "(string \<times> string list) list"

record 'v disk =
  listdir :: "path \<Rightarrow> string list"
  images :: "string \<rightharpoonup> 'v"
  directories :: "path \<Rightarrow> bool"
  documents :: "path \<rightharpoonup> json"
  reads :: "string list"

record 'v StructureSet =
  structure_set_path :: path
  structure_names :: "string list"
  structure_mapping :: "mapping option"
  cache :: "string \<rightharpoonup> 'v"

function replace_empty :: "string \<Rightarrow> string \<Rightarrow> string" where
  "replace_empty old [] = []"
| "replace_empty old (c # cs) =
     (if old \<noteq> [] \<and> prefix old (c # cs) then replace_empty old (drop (length old) (c # cs))
      else c # replace_empty old cs)"
  by pat_completeness auto
termination
  by (relation "measure (\<lambda>(old, s). length s)") auto

definition glob_nii :: "'v disk \<Rightarrow> path \<Rightarrow> string list" where
  \<comment> \<open>\<^verbatim>\<open>p.glob("*.nii.gz")\<close>: the names in the directory that end in \<^verbatim>\<open>.nii.gz\<close>.\<close>
  "glob_nii d p = filter (\<lambda>n. suffix ''.nii.gz'' n) (listdir d p)"

definition StructureSet_init ::
  "'v disk \<Rightarrow> series \<Rightarrow> mapping option \<Rightarrow> (error + 'v StructureSet) \<times> 'v disk" where
  "StructureSet_init d structure_set_row mapping_given =
     (if \<not> modality structure_set_row = ''RTSTRUCT'' then (Inl AttributeError, d)
      else
        (let set_path = Path (path structure_set_row);
             names = map (\<lambda>s. replace_empty ''.nii.gz'' s) (glob_nii d set_path);
             names = (case mapping_given of None \<Rightarrow> names | Some m \<Rightarrow> map fst m)
         in (Inr \<lparr>structure_set_path = set_path, structure_names = names,
                  structure_mapping = mapping_given, cache = Map.empty\<rparr>, d)))"

definition not_found :: "string \<Rightarrow> error" where
  "not_found item = KeyError (''Structure name '' @ item @ '' not found in structure set.'')"

definition getitem ::
  "(string \<Rightarrow> mapping \<Rightarrow> string) \<Rightarrow> 'v StructureSet \<Rightarrow> string \<Rightarrow> 'v disk
     \<Rightarrow> (error + 'v) \<times> 'v StructureSet \<times> 'v disk" where
  "getitem map_structure_name self item d =
     (let item = (case structure_mapping self of
                    None \<Rightarrow> item
                  | Some m \<Rightarrow> map_structure_name item m)
      in if item \<notin> set (structure_names self) then (Inl (not_found item), self, d)
         else (case cache self item of
                 Some v \<Rightarrow> (Inr v, self, d)
               | None \<Rightarrow>
                   (let structure_path = joinpath (structure_set_path self) (Path (item @ ''.nii.gz''));
                        d' = d\<lparr>reads := reads d @ [str structure_path]\<rparr>
                    in case images d (str structure_path) of
                         None \<Rightarrow> (Inl RuntimeError, self, d')
                       | Some result \<Rightarrow>
                           (Inr result, self\<lparr>cache := (cache self)(item \<mapsto> result)\<rparr>, d'))))"

definition keys :: "'v StructureSet \<Rightarrow> string list" where
  "keys self = structure_names self"


definition mapping_location :: "'v StructureSet \<Rightarrow> string \<Rightarrow> error + path" where
  "mapping_location self level =
     (if level = ''project''
      then Inr (joinpath (parent (parent (parent (parent (structure_set_path self))))) (Path ''.pydicer''))
      else if level = ''patient'' then Inr (parent (parent (structure_set_path self)))
      else if level = ''current_structure_set'' then Inr (structure_set_path self)
      else Inl ValueError)"


section \<open>Predicates of the statements\<close>

definition cols :: "series \<Rightarrow> series" where
  \<comment> \<open>A row without its index label.\<close>
  "cols r = r\<lparr>name := 0\<rparr>"

definition grows :: "filesystem \<Rightarrow> filesystem \<Rightarrow> bool" where
  \<comment> \<open>Nothing is removed: a directory stays, a link keeps its target, and a table keeps its
     rows, in order, as the first rows of the table that replaces it.\<close>
  "grows fs fs' =
     (\<forall>k. (fs k = Some Dir \<longrightarrow> fs' k = Some Dir) \<and>
          (\<forall>t. fs k = Some (Symlink t) \<longrightarrow> fs' k = Some (Symlink t)) \<and>
          (\<forall>df. fs k = Some (Csv df) \<longrightarrow>
             (\<exists>df'. fs' k = Some (Csv df') \<and> prefix (map cols df) (map cols df'))))"

definition manifest_path :: "PrepareDataset \<Rightarrow> string \<Rightarrow> string \<Rightarrow> path" where
  \<comment> \<open>Where the manifest of a patient in a dataset is kept.\<close>
  "manifest_path self dataset_name pat_id =
     joinpath (joinpath (joinpath (working_directory self) (Path dataset_name)) (Path pat_id))
       (Path ''converted.csv'')"

definition manifests_unique :: "filesystem \<Rightarrow> bool" where
  \<comment> \<open>No table on the disk has two rows with the same \<open>hashed_uid\<close>.\<close>
  "manifests_unique fs = (\<forall>k df. fs k = Some (Csv df) \<longrightarrow> distinct (map hashed_uid df))"

definition call_sequence ::
  "PrepareDataset \<Rightarrow> string \<Rightarrow> series list \<Rightarrow> filesystem \<Rightarrow> filesystem" where
  \<comment> \<open>The disk after a sequence of separate calls of \<^verbatim>\<open>add_object_to_dataset\<close>, each made
     whatever the outcome of the calls before it.\<close>
  "call_sequence self dataset_name rows fs =
     foldl (\<lambda>fs row. snd (add_object_to_dataset self dataset_name row fs)) fs rows"

definition link_of :: "PrepareDataset \<Rightarrow> string \<Rightarrow> series \<Rightarrow> (path \<times> path) option" where
  \<comment> \<open>The place of the link that \<^verbatim>\<open>add_object_to_dataset\<close> computes for a row, and its
     target; \<open>None\<close> when the computation raises.\<close>
  "link_of self dataset_name data_object_row =
     (case relative_row self data_object_row of
        Inl e \<Rightarrow> None
      | Inr row \<Rightarrow> (case link_paths self dataset_name row of Inl e \<Rightarrow> None | Inr l \<Rightarrow> Some l))"

definition resolve_function ::
  "(string \<rightharpoonup> preparation) \<Rightarrow> preparation \<Rightarrow> (dataframe \<Rightarrow> dataframe) option" where
  \<comment> \<open>The function that \<^verbatim>\<open>prepare\<close> ends up calling, when there is one.\<close>
  "resolve_function functions preparation_function =
     (case preparation_function of
        Named n \<Rightarrow> (case functions n of Some (Function f) \<Rightarrow> Some f | _ \<Rightarrow> None)
      | Function f \<Rightarrow> Some f
      | Other \<Rightarrow> None)"

definition resolved_name :: "(string \<Rightarrow> mapping \<Rightarrow> string) \<Rightarrow> 'v StructureSet \<Rightarrow> string \<Rightarrow> string" where
  \<comment> \<open>The name under which \<^verbatim>\<open>__getitem__\<close> looks a requested name up.\<close>
  "resolved_name map_structure_name self item =
     (case structure_mapping self of None \<Rightarrow> item | Some m \<Rightarrow> map_structure_name item m)"




text \<open>Two predicates of the proofs: a component as parsing leaves it, and a stack of
  components in which \<open>..\<close> has nothing left to cancel.\<close>

definition valid_part :: "string \<Rightarrow> bool" where
  "valid_part x = (x \<noteq> [] \<and> x \<noteq> ''.'' \<and> CHR ''/'' \<notin> set x)"

definition snormal :: "bool \<Rightarrow> string list \<Rightarrow> bool" where
  "snormal b acc = (\<exists>n ys. acc = ys @ replicate n ''..'' \<and> ''..'' \<notin> set ys \<and> (b \<longrightarrow> n = 0))"

section \<open>Concrete cases\<close>

text \<open>A pool with one patient and two objects, under the working directory \<open>/w\<close>.\<close>

definition pool :: filesystem where
  "pool = Map.empty(Path ''/w'' \<mapsto> Dir, Path ''/w/converted'' \<mapsto> Dir,
     Path ''/w/converted/P1'' \<mapsto> Dir, Path ''/w/converted/P1/a'' \<mapsto> Dir,
     Path ''/w/converted/P1/b'' \<mapsto> Dir)"

definition row_a :: series where
  "row_a = \<lparr>name = 5, patient_id = ''P1'', hashed_uid = ''a'', modality = ''RTSTRUCT'',
     path = ''/w/converted/P1/a''\<rparr>"

definition row_b :: series where
  "row_b = \<lparr>name = 7, patient_id = ''P1'', hashed_uid = ''b'', modality = ''RTSTRUCT'',
     path = ''/w/converted/P1/b''\<rparr>"

definition pd :: PrepareDataset where
  "pd = PrepareDataset_init ''/w''"

definition pool_reader :: "filesystem \<Rightarrow> path \<Rightarrow> string list option \<Rightarrow> dataframe" where
  "pool_reader fs wd patients = [row_a, row_b]"

definition select_uid :: "string \<Rightarrow> dataframe \<Rightarrow> dataframe" where
  "select_uid u df = filter (\<lambda>r. hashed_uid r = u) df"

definition clean_a :: filesystem where
  \<comment> \<open>The disk after \<^verbatim>\<open>prepare("clean", fn)\<close> with a function that selects the object \<open>a\<close>.\<close>
  "clean_a = snd (prepare Map.empty pool_reader pd ''clean'' (Function (select_uid ''a'')) None pool)"

definition row_out :: series where
  \<comment> \<open>A row whose object is not under the working directory \<open>/w\<close>.\<close>
  "row_out = \<lparr>name = 9, patient_id = ''P1'', hashed_uid = ''c'', modality = ''CT'',
     path = ''/elsewhere/converted/P1/c''\<rparr>"

definition row_stray :: series where
  \<comment> \<open>A row whose object is under the working directory but not in the pool directory.\<close>
  "row_stray = \<lparr>name = 3, patient_id = ''P1'', hashed_uid = ''d'', modality = ''CT'',
     path = ''other/P1/d''\<rparr>"

text \<open>A structure set with two label files, a mapping of names, and a resolver.\<close>

fun exact_match :: "string \<Rightarrow> mapping \<Rightarrow> string" where
  "exact_match n [] = n"
| "exact_match n ((k, vs) # m) = (if n = k \<or> n \<in> set vs then k else exact_match n m)"

definition underscore_resolver :: "string \<Rightarrow> mapping \<Rightarrow> string" where
  \<comment> \<open>A resolver that writes blanks as underscores before it matches a name against the
     canonical names and their variants.\<close>
  "underscore_resolver n m = exact_match (map (\<lambda>c. if c = CHR '' '' then CHR ''_'' else c) n) m"

definition row_rt :: series where
  "row_rt = \<lparr>name = 0, patient_id = ''P1'', hashed_uid = ''s'', modality = ''RTSTRUCT'',
     path = ''/w/converted/P1/structures/s''\<rparr>"

definition disk_rt :: "nat disk" where
  \<comment> \<open>A structure set with two label files; the volumes are numbered.\<close>
  "disk_rt = \<lparr>listdir = (\<lambda>p. if p = Path ''/w/converted/P1/structures/s''
                            then [''heart.nii.gz'', ''lung_l.nii.gz''] else []),
     images = [''/w/converted/P1/structures/s/heart.nii.gz'' \<mapsto> 1,
               ''/w/converted/P1/structures/s/lung_l.nii.gz'' \<mapsto> 2],
     directories = (\<lambda>p. p \<in> {Path ''/w'', Path ''/w/.pydicer'', Path ''/w/converted'',
        Path ''/w/converted/P1'', Path ''/w/converted/P1/structures'',
        Path ''/w/converted/P1/structures/s''}),
     documents = Map.empty, reads = []\<rparr>"

definition names_map :: mapping where
  "names_map = [(''heart'', [''Heart'', ''HEART'']), (''lung_l'', [''Lung_L'', ''left_lung''])]"

definition acc_rt :: "nat StructureSet" where
  \<comment> \<open>The accessor of \<open>row_rt\<close> with the mapping \<open>names_map\<close>, as it is constructed.\<close>
  "acc_rt = \<lparr>structure_set_path = Path ''/w/converted/P1/structures/s'',
     structure_names = [''heart'', ''lung_l''],
     structure_mapping = Some names_map, cache = Map.empty\<rparr>"

definition acc_plain :: "nat StructureSet" where
  \<comment> \<open>The accessor of \<open>row_rt\<close> without a mapping.\<close>
  "acc_plain = \<lparr>structure_set_path = Path ''/w/converted/P1/structures/s'',
     structure_names = [''heart'', ''lung_l''],
     structure_mapping = None, cache = Map.empty\<rparr>"

section \<open>Facts about paths\<close>

lemma split_sep_nonempty: "split_sep s \<noteq> []"
  by (induction s) (auto split: list.splits)

lemma split_sep_no_sep: "w \<in> set (split_sep s) \<Longrightarrow> CHR ''/'' \<notin> set w"
  by (induction s arbitrary: w) (auto split: list.splits if_splits)

lemma split_sep_append: "split_sep (a @ CHR ''/'' # b) = split_sep a @ split_sep b"
  by (induction a) (auto split: list.splits simp: split_sep_nonempty)

lemma split_sep_word: "CHR ''/'' \<notin> set w \<Longrightarrow> split_sep w = [w]"
  by (induction w) auto

lemma split_sep_join:
  "xs \<noteq> [] \<Longrightarrow> \<forall>x\<in>set xs. CHR ''/'' \<notin> set x \<Longrightarrow> split_sep (sep_join xs) = xs"
  by (induction xs rule: sep_join.induct) (auto simp: split_sep_append split_sep_word)

lemma Path_parts_valid: "x \<in> set (parts (Path s)) \<Longrightarrow> valid_part x"
  by (auto simp: Path_def valid_part_def dest: split_sep_no_sep)

lemma Path_root: "root (Path s) \<in> {[], ''/'', ''//''}"
  by (auto simp: Path_def parse_root_def Let_def)

lemma filter_valid: "\<forall>x\<in>set xs. valid_part x \<Longrightarrow> filter (\<lambda>x. x \<noteq> [] \<and> x \<noteq> ''.'') xs = xs"
  by (induction xs) (auto simp: valid_part_def)

lemma parts_Path_join:
  assumes "\<forall>x\<in>set xs. valid_part x"
  shows "filter (\<lambda>x. x \<noteq> [] \<and> x \<noteq> ''.'') (split_sep (sep_join xs)) = xs"
proof (cases "xs = []")
  case True then show ?thesis by simp
next
  case False
  with assms have "split_sep (sep_join xs) = xs"
    by (intro split_sep_join) (auto simp: valid_part_def)
  with assms show ?thesis by (simp add: filter_valid)
qed

lemma sep_join_hd: "xs \<noteq> [] \<Longrightarrow> \<forall>x\<in>set xs. valid_part x \<Longrightarrow> \<exists>c cs. sep_join xs = c # cs \<and> c \<noteq> CHR ''/''"
  by (induction xs rule: sep_join.induct) (auto simp: valid_part_def neq_Nil_conv)

lemma parse_root_rel: "parse_root (c # cs) = [] " if "c \<noteq> CHR ''/''"
  using that by (simp add: parse_root_def)

lemma Path_str:
  assumes "root p \<in> {[], ''/'', ''//''}" "\<forall>x\<in>set (parts p). valid_part x"
  shows "Path (str p) = p"
proof (cases "parts p = []")
  case True
  with assms(1) show ?thesis
    by (cases p) (auto simp: str_def Path_def parse_root_def)
next
  case False
  then obtain c cs where j: "sep_join (parts p) = c # cs" "c \<noteq> CHR ''/''"
    using sep_join_hd assms(2) by blast
  have r: "parse_root (root p @ sep_join (parts p)) = root p"
    using assms(1) j by (auto simp: parse_root_def)
  have "split_sep (root p @ sep_join (parts p)) = replicate (length (root p)) [] @ split_sep (sep_join (parts p))"
    using assms(1) by auto
  then have "filter (\<lambda>x. x \<noteq> [] \<and> x \<noteq> ''.'') (split_sep (root p @ sep_join (parts p))) = parts p"
    using parts_Path_join[OF assms(2)] by simp
  with r False show ?thesis by (cases p) (simp add: str_def Path_def)
qed

lemma Path_str_Path: "Path (str (Path s)) = Path s"
  by (rule Path_str) (auto simp: Path_root dest: Path_parts_valid simp del: insert_iff)

lemma parts_dots: "filter (\<lambda>x. x \<noteq> [] \<and> x \<noteq> ''.'') (split_sep (sep_join (replicate n ''..''))) = replicate n ''..''"
  by (rule parts_Path_join) (auto simp: valid_part_def)

lemma parts_str:
  assumes "root p = []" "\<forall>x\<in>set (parts p). valid_part x"
  shows "filter (\<lambda>x. x \<noteq> [] \<and> x \<noteq> ''.'') (split_sep (str p)) = parts p"
  using assms parts_Path_join[of "parts p"] by (auto simp: str_def)

lemma str_rel_hd:
  assumes "root p = []" "\<forall>x\<in>set (parts p). valid_part x"
  shows "\<exists>c cs. str p = c # cs \<and> c \<noteq> CHR ''/''"
  using assms sep_join_hd[of "parts p"] by (auto simp: str_def)

lemma sep_join_dots_hd: "0 < n \<Longrightarrow> \<exists>cs. sep_join (replicate n ''..'') = CHR ''.'' # cs"
  by (cases n; cases "n - 1") auto

lemma src_path_eq:
  assumes "root p = []" "\<forall>x\<in>set (parts p). valid_part x"
  shows "Path (sep_join (map (\<lambda>_. ''..'') ups) @ ''/'' @ str p) =
         \<lparr>root = (if ups = [] then ''/'' else []), parts = replicate (length ups) ''..'' @ parts p\<rparr>"
proof -
  let ?d = "sep_join (replicate (length ups) ''..'')"
  have m: "map (\<lambda>_. ''..'') ups = replicate (length ups) ''..''"
    by (simp add: map_replicate_const)
  have "split_sep (?d @ ''/'' @ str p) = split_sep ?d @ split_sep (str p)"
    using split_sep_append[of ?d "str p"] by simp
  then have ps: "filter (\<lambda>x. x \<noteq> [] \<and> x \<noteq> ''.'') (split_sep (?d @ ''/'' @ str p)) =
        replicate (length ups) ''..'' @ parts p"
    using parts_dots[of "length ups"] parts_str[OF assms] by simp
  obtain c cs where s: "str p = c # cs" "c \<noteq> CHR ''/''"
    using str_rel_hd[OF assms] by blast
  have rt: "parse_root (?d @ ''/'' @ str p) = (if ups = [] then ''/'' else [])"
  proof (cases "ups = []")
    case True
    then show ?thesis using s by (simp add: parse_root_def)
  next
    case False
    then obtain ds where "?d = CHR ''.'' # ds"
      using sep_join_dots_hd[of "length ups"] by auto
    then show ?thesis using False by (simp add: parse_root_def)
  qed
  show ?thesis unfolding Path_def m using ps rt by simp
qed

lemma norm_parts_plain:
  "''..'' \<notin> set xs \<Longrightarrow> norm_parts b acc (xs @ ys) = norm_parts b (rev xs @ acc) ys"
  by (induction xs arbitrary: acc) auto

lemma norm_parts_pop:
  "''..'' \<notin> set xs \<Longrightarrow>
   norm_parts b (xs @ acc) (replicate (length xs) ''..'' @ ys) = norm_parts b acc ys"
  by (induction xs arbitrary: acc) auto

lemma norm_parts_cancel:
  "''..'' \<notin> set xs \<Longrightarrow>
   norm_parts b acc (xs @ replicate (length xs) ''..'' @ ys) = norm_parts b acc ys"
  using norm_parts_plain[of xs b acc "replicate (length xs) ''..'' @ ys"]
        norm_parts_pop[of "rev xs" b acc ys] by simp

lemma norm_parts_append:
  "norm_parts b acc (xs @ ys) = norm_parts b (rev (norm_parts b acc xs)) ys"
  by (induction xs arbitrary: acc) (auto split: list.splits)

lemma snormal_Nil: "snormal b []"
  by (simp add: snormal_def)

lemma snormal_push: "snormal b acc \<Longrightarrow> c \<noteq> ''..'' \<Longrightarrow> snormal b (c # acc)"
  unfolding snormal_def
  apply (elim exE conjE)
  subgoal for n ys
    by (rule exI[of _ n], rule exI[of _ "c # ys"]) simp
  done

lemma snormal_pop: "snormal b (a # as) \<Longrightarrow> a \<noteq> ''..'' \<Longrightarrow> snormal b as"
  unfolding snormal_def
  apply (elim exE conjE)
  subgoal for n ys
    by (cases ys) (auto simp: Cons_replicate_eq)
  done

lemma snormal_dots: "snormal b acc \<Longrightarrow> acc = [] \<or> hd acc = ''..'' \<Longrightarrow> \<exists>n. acc = replicate n ''..'' \<and> (b \<longrightarrow> n = 0)"
  unfolding snormal_def
  apply (elim exE conjE)
  subgoal for n ys
    by (cases ys) auto
  done

lemma snormal_rooted: "snormal True acc \<Longrightarrow> ''..'' \<notin> set acc"
  unfolding snormal_def by auto

lemma snormal_push_dots: "\<not> b \<Longrightarrow> snormal b acc \<Longrightarrow> acc = [] \<or> hd acc = ''..'' \<Longrightarrow> snormal b (''..'' # acc)"
proof -
  assume nb: "\<not> b" and s: "snormal b acc" and h: "acc = [] \<or> hd acc = ''..''"
  from snormal_dots[OF s h] obtain n where "acc = replicate n ''..''" by blast
  then have "''..'' # acc = [] @ replicate (Suc n) ''..'' \<and> ''..'' \<notin> set ([]::string list) \<and> (b \<longrightarrow> Suc n = 0)"
    using nb by simp
  then show ?thesis unfolding snormal_def by (intro exI)
qed

lemma norm_parts_snormal: "snormal b acc \<Longrightarrow> snormal b (rev (norm_parts b acc xs))"
proof (induction xs arbitrary: acc)
  case Nil
  then show ?case by simp
next
  case (Cons c cs)
  show ?case
  proof (cases "c = ''..''")
    case False
    with Cons show ?thesis by (simp add: snormal_push)
  next
    case True
    show ?thesis
    proof (cases acc)
      case Nil
      show ?thesis
      proof (cases b)
        case True
        with Nil \<open>c = ''..''\<close> Cons show ?thesis by simp
      next
        case False
        have "snormal b [''..'']" using False snormal_push_dots[of b "[]"] by (simp add: snormal_Nil)
        with Nil \<open>c = ''..''\<close> False Cons.IH[of "[''..'']"] show ?thesis by simp
      qed
    next
      case (Cons a as)
      show ?thesis
      proof (cases "a = ''..''")
        case True
        have nb: "\<not> b" using Cons.prems Cons True snormal_rooted[of acc]
          by (cases b) auto
        have "snormal b (''..'' # acc)"
          using nb Cons.prems Cons True by (intro snormal_push_dots) auto
        with Cons True \<open>c = ''..''\<close> Cons.IH[of "''..'' # acc"] show ?thesis by simp
      next
        case False
        have "snormal b as" using snormal_pop[of b a as] Cons.prems Cons False by simp
        with Cons False \<open>c = ''..''\<close> Cons.IH[of as] show ?thesis by simp
      qed
    qed
  qed
qed

lemma norm_parts_dots:
  "\<not> b \<Longrightarrow> norm_parts b (replicate m ''..'') (replicate n ''..'' @ ys) =
          norm_parts b (replicate (n + m) ''..'') ys"
proof (induction n arbitrary: m)
  case 0 then show ?case by simp
next
  case (Suc n)
  show ?case
  proof (cases m)
    case 0
    with Suc.prems Suc.IH[of 1] show ?thesis by simp
  next
    case (Suc k)
    with Suc.prems Suc.IH[of "Suc m"] show ?thesis by simp
  qed
qed

lemma norm_parts_snormal_id:
  assumes "snormal b acc"
  shows "norm_parts b [] (rev acc) = rev acc"
proof -
  from assms obtain n ys where x: "acc = ys @ replicate n ''..''" "''..'' \<notin> set ys" "b \<longrightarrow> n = 0"
    unfolding snormal_def by blast
  show ?thesis
  proof (cases b)
    case True
    with x norm_parts_plain[of "rev ys" b "[]" "[]"] show ?thesis by simp
  next
    case False
    have "norm_parts b [] (rev acc) = norm_parts b (replicate n ''..'') (rev ys)"
      using norm_parts_dots[OF False, of 0 n "rev ys"] x by simp
    also have "\<dots> = rev (ys @ replicate n ''..'')"
      using norm_parts_plain[of "rev ys" b "replicate n ''..''" "[]"] x by simp
    finally show ?thesis using x by simp
  qed
qed

lemma normpath_idem: "normpath (normpath p) = normpath p"
  using norm_parts_snormal_id[OF norm_parts_snormal[OF snormal_Nil, of "root p \<noteq> []" "parts p"]]
  by (simp add: normpath_def)

section \<open>Facts about the file system\<close>

lemma lookup_normpath: "lookup fs (normpath p) = lookup fs p"
  by (simp add: lookup_def normpath_idem)

lemma lookup_None: "lookup fs p = None \<Longrightarrow> \<not> anchor (normpath p) \<and> fs (normpath p) = None"
  by (auto simp: lookup_def Let_def split: if_splits)

lemma lookup_plain: "\<not> anchor (normpath p) \<Longrightarrow> lookup fs p = fs (normpath p)"
  by (simp add: lookup_def)

lemma lookup_not_Dir: "lookup fs p \<noteq> Some Dir \<Longrightarrow> \<not> anchor (normpath p)"
  by (auto simp: lookup_def Let_def split: if_splits)

lemma lookup_upd:
  "\<not> anchor k \<Longrightarrow> lookup (fs(k \<mapsto> v)) p = (if normpath p = k then Some v else lookup fs p)"
  by (auto simp: lookup_def Let_def)

lemma grows_refl: "grows fs fs"
  by (simp add: grows_def)

lemma grows_trans: "grows a b \<Longrightarrow> grows b c \<Longrightarrow> grows a c"
  unfolding grows_def
  apply (intro allI conjI impI)
    apply blast
   apply blast
  apply (meson prefix_order.order_trans)
  done

lemma grows_upd_new: "fs k = None \<Longrightarrow> grows fs (fs(k \<mapsto> v))"
  by (auto simp: grows_def)

lemma grows_upd_csv:
  "fs k = Some (Csv df) \<Longrightarrow> prefix (map cols df) (map cols df') \<Longrightarrow> grows fs (fs(k \<mapsto> Csv df'))"
  by (auto simp: grows_def)

lemma grows_lookup_Dir: "grows fs fs' \<Longrightarrow> lookup fs p = Some Dir \<Longrightarrow> lookup fs' p = Some Dir"
  by (auto simp: grows_def lookup_def Let_def split: if_splits)

lemma grows_lookup_Symlink:
  "grows fs fs' \<Longrightarrow> lookup fs p = Some (Symlink t) \<Longrightarrow> lookup fs' p = Some (Symlink t)"
  by (auto simp: grows_def lookup_def Let_def split: if_splits)

lemma grows_lookup_Csv:
  "grows fs fs' \<Longrightarrow> lookup fs p = Some (Csv df) \<Longrightarrow>
   \<exists>df'. lookup fs' p = Some (Csv df') \<and> prefix (map cols df) (map cols df')"
  by (auto simp: grows_def lookup_def Let_def split: if_splits)

lemma grows_lookup_Some: "grows fs fs' \<Longrightarrow> lookup fs p \<noteq> None \<Longrightarrow> lookup fs' p \<noteq> None"
proof -
  assume g: "grows fs fs'" and l: "lookup fs p \<noteq> None"
  then obtain nd where nd: "lookup fs p = Some nd" by auto
  show ?thesis
  proof (cases nd)
    case Dir
    with g nd show ?thesis by (auto dest: grows_lookup_Dir)
  next
    case (Symlink t)
    with g nd show ?thesis by (auto dest: grows_lookup_Symlink)
  next
    case (Csv df)
    with g nd show ?thesis by (auto dest: grows_lookup_Csv)
  qed
qed

lemma resolve_normal: "resolve n fs p = Some q \<Longrightarrow> normpath q = q"
  by (induction n arbitrary: p) (auto simp: normpath_idem split: option.splits node.splits)

lemma resolve_final: "resolve n fs p = Some q \<Longrightarrow> lookup fs q \<noteq> Some (Symlink t)"
  by (induction n arbitrary: p) (auto simp: lookup_normpath split: option.splits node.splits)

lemma grows_resolve:
  "grows fs fs' \<Longrightarrow> resolve n fs p = Some q \<Longrightarrow> lookup fs q \<noteq> None \<Longrightarrow> resolve n fs' p = Some q"
proof (induction n arbitrary: p)
  case 0
  then show ?case by simp
next
  case (Suc n)
  show ?case
  proof (cases "lookup fs p")
    case None
    with Suc.prems have "q = normpath p" by simp
    with None Suc.prems(3) show ?thesis by (simp add: lookup_normpath)
  next
    case (Some nd)
    show ?thesis
    proof (cases nd)
      case Dir
      with Some Suc.prems grows_lookup_Dir[of fs fs' p] show ?thesis by simp
    next
      case (Symlink t)
      with Some Suc.prems grows_lookup_Symlink[of fs fs' p t] Suc.IH show ?thesis by simp
    next
      case (Csv df)
      with Some Suc.prems grows_lookup_Csv[of fs fs' p df] show ?thesis by auto
    qed
  qed
qed

lemma stat_lookup: "stat fs p \<noteq> None \<Longrightarrow> lookup fs p \<noteq> None"
  by (auto simp: stat_def MAXSYMLINKS_def eval_nat_numeral lookup_normpath split: option.splits)

lemma grows_stat:
  assumes "grows fs fs'" "stat fs p = Some nd"
  shows "\<exists>q. resolve MAXSYMLINKS fs p = Some q \<and> resolve MAXSYMLINKS fs' p = Some q \<and>
             lookup fs q = Some nd \<and> stat fs' p = lookup fs' q"
proof -
  from assms(2) obtain q where q: "resolve MAXSYMLINKS fs p = Some q" "lookup fs q = Some nd"
    by (auto simp: stat_def split: option.splits)
  then have "resolve MAXSYMLINKS fs' p = Some q"
    using grows_resolve[OF assms(1), of MAXSYMLINKS p q] by simp
  with q show ?thesis by (simp add: stat_def)
qed

lemma grows_stat_Dir: "grows fs fs' \<Longrightarrow> stat fs p = Some Dir \<Longrightarrow> stat fs' p = Some Dir"
  using grows_stat[of fs fs' p Dir] grows_lookup_Dir[of fs fs'] by auto

lemma grows_stat_Csv:
  "grows fs fs' \<Longrightarrow> stat fs p = Some (Csv df) \<Longrightarrow>
   \<exists>df'. stat fs' p = Some (Csv df') \<and> prefix (map cols df) (map cols df')"
  using grows_stat[of fs fs' p "Csv df"] grows_lookup_Csv[of fs fs' _ df] by auto

lemma grows_exists: "grows fs fs' \<Longrightarrow> exists fs p \<Longrightarrow> exists fs' p"
proof -
  assume g: "grows fs fs'" and e: "exists fs p"
  then obtain nd where "stat fs p = Some nd" by (auto simp: exists_def)
  from grows_stat[OF g this] grows_lookup_Some[OF g] show ?thesis
    by (auto simp: exists_def)
qed

lemma grows_is_dir: "grows fs fs' \<Longrightarrow> is_dir fs p \<Longrightarrow> is_dir fs' p"
  by (simp add: is_dir_def grows_stat_Dir)

lemma MAXSYMLINKS_Suc: "MAXSYMLINKS = Suc 39"
  by (simp add: MAXSYMLINKS_def)

lemma resolve_max:
  "resolve MAXSYMLINKS fs p =
     (case lookup fs p of
        Some (Symlink t) \<Rightarrow> resolve 39 fs (joinpath (parent p) t)
      | _ \<Rightarrow> Some (normpath p))"
  unfolding MAXSYMLINKS_Suc by (rule resolve.simps(2))

lemma stat_plain:
  "lookup fs p = Some nd \<Longrightarrow> (\<forall>t. nd \<noteq> Symlink t) \<Longrightarrow> stat fs p = Some nd"
  by (cases nd) (auto simp: stat_def resolve_max lookup_normpath)

lemma stat_missing: "lookup fs p = None \<Longrightarrow> stat fs p = None"
  by (auto simp: stat_def resolve_max lookup_normpath)

lemma mkdir1_grows: "mkdir1 fs p = Inr fs' \<Longrightarrow> grows fs fs'"
  by (auto simp: mkdir1_def grows_refl split: option.splits if_splits
           dest!: lookup_None intro: grows_upd_new)

lemma mkdir1_is_dir: "mkdir1 fs p = Inr fs' \<Longrightarrow> is_dir fs' p"
proof -
  assume m: "mkdir1 fs p = Inr fs'"
  show ?thesis
  proof (cases "lookup fs p")
    case None
    then have na: "\<not> anchor (normpath p)" by (auto dest: lookup_None)
    from None m have "fs' = fs(normpath p \<mapsto> Dir)"
      by (auto simp: mkdir1_def split: if_splits)
    then have "lookup fs' p = Some Dir" using na by (simp add: lookup_upd)
    then show ?thesis by (simp add: is_dir_def stat_plain)
  next
    case (Some nd)
    with m show ?thesis by (auto simp: mkdir1_def split: if_splits)
  qed
qed

lemma mkdir1_idem: "is_dir fs p \<Longrightarrow> mkdir1 fs p = Inr fs"
  using stat_lookup[of fs p] by (auto simp: mkdir1_def is_dir_def split: option.splits)

lemma mkdir_parents_grows: "grows fs (snd (mkdir_parents fs r ps))"
proof (induction ps arbitrary: fs)
  case Nil
  then show ?case by (auto simp: grows_refl split: sum.splits dest: mkdir1_grows)
next
  case (Cons c ps)
  let ?p = "\<lparr>root = r, parts = rev (c # ps)\<rparr>"
  show ?case
  proof (cases "lookup fs ?p = None \<and> \<not> exists fs (parent ?p)")
    case False
    then show ?thesis
      by (auto simp: grows_refl Let_def split: sum.splits dest: mkdir1_grows)
  next
    case True
    obtain res fs1 where r: "mkdir_parents fs r ps = (res, fs1)" by fastforce
    with Cons.IH[of fs] have g: "grows fs fs1" by simp
    show ?thesis
    proof (cases res)
      case (Inl e)
      with True r g show ?thesis by (simp add: Let_def)
    next
      case (Inr u)
      show ?thesis
      proof (cases "mkdir1 fs1 ?p")
        case (Inl e)
        with True r g Inr show ?thesis by (simp add: Let_def)
      next
        case (Inr fs2)
        with True r g \<open>res = Inr u\<close> mkdir1_grows[of fs1 ?p fs2] show ?thesis
          by (auto simp: Let_def intro: grows_trans)
      qed
    qed
  qed
qed

lemma mkdir_parents_is_dir:
  "mkdir_parents fs r ps = (Inr u, fs') \<Longrightarrow> is_dir fs' \<lparr>root = r, parts = rev ps\<rparr>"
  by (cases ps) (auto simp: Let_def split: sum.splits if_splits prod.splits dest: mkdir1_is_dir)

lemma mkdir_parents_idem:
  "is_dir fs \<lparr>root = r, parts = rev ps\<rparr> \<Longrightarrow> mkdir_parents fs r ps = (Inr (), fs)"
  using stat_lookup[of fs "\<lparr>root = r, parts = rev ps\<rparr>"]
  by (cases ps) (auto simp: Let_def mkdir1_idem is_dir_def)

lemma path_eq: "\<lparr>root = root p, parts = parts p\<rparr> = p"
  by (cases p) simp

lemma mkdir_grows: "grows fs (snd (mkdir fs p))"
  by (simp add: mkdir_def mkdir_parents_grows)

lemma mkdir_is_dir: "mkdir fs p = (Inr u, fs') \<Longrightarrow> is_dir fs' p"
  using mkdir_parents_is_dir[of fs "root p" "rev (parts p)" u fs'] by (simp add: mkdir_def path_eq)

lemma mkdir_idem: "is_dir fs p \<Longrightarrow> mkdir fs p = (Inr (), fs)"
  using mkdir_parents_idem[of fs "root p" "rev (parts p)"] by (simp add: mkdir_def path_eq)

lemma symlink_to_grows: "symlink_to fs p t = Inr fs' \<Longrightarrow> grows fs fs'"
  by (auto simp: symlink_to_def split: if_splits dest!: lookup_None intro: grows_upd_new)

lemma symlink_to_lookup: "symlink_to fs p t = Inr fs' \<Longrightarrow> lookup fs' p = Some (Symlink t)"
  by (auto simp: symlink_to_def lookup_upd split: if_splits dest!: lookup_None)

lemma to_csv_target:
  assumes "to_csv fs df p = Inr fs'"
  shows "\<exists>q. resolve MAXSYMLINKS fs p = Some q \<and> \<not> anchor q \<and> normpath q = q \<and>
             fs' = fs(q \<mapsto> Csv df) \<and> (fs q = None \<or> (\<exists>old. fs q = Some (Csv old)))"
proof -
  from assms obtain q where q: "resolve MAXSYMLINKS fs p = Some q"
    by (auto simp: to_csv_def split: option.splits)
  then have n: "normpath q = q" by (rule resolve_normal)
  from assms q have l: "lookup fs q \<noteq> Some Dir" and f: "fs' = fs(q \<mapsto> Csv df)"
    and c: "lookup fs q = None \<or> (\<exists>old. lookup fs q = Some (Csv old))"
    by (auto simp: to_csv_def split: option.splits node.splits if_splits)
  from l have na: "\<not> anchor q" using lookup_not_Dir[of fs q] n by simp
  then have "lookup fs q = fs q" using lookup_plain[of q fs] n by simp
  with q n na f c show ?thesis by auto
qed

lemma to_csv_grows:
  assumes "to_csv fs df p = Inr fs'"
    and "\<And>old. stat fs p = Some (Csv old) \<Longrightarrow> prefix (map cols old) (map cols df)"
  shows "grows fs fs'"
proof -
  from to_csv_target[OF assms(1)] obtain q where q: "resolve MAXSYMLINKS fs p = Some q"
    "\<not> anchor q" "normpath q = q" "fs' = fs(q \<mapsto> Csv df)"
    "fs q = None \<or> (\<exists>old. fs q = Some (Csv old))" by blast
  have lq: "lookup fs q = fs q" using q lookup_plain[of q fs] by simp
  from q(5) show ?thesis
  proof
    assume "fs q = None"
    with q show ?thesis by (simp add: grows_upd_new)
  next
    assume "\<exists>old. fs q = Some (Csv old)"
    then obtain old where o: "fs q = Some (Csv old)" by blast
    then have "stat fs p = Some (Csv old)" using q lq by (simp add: stat_def)
    from assms(2)[OF this] o q show ?thesis by (simp add: grows_upd_csv)
  qed
qed

lemma to_csv_stat: "to_csv fs df p = Inr fs' \<Longrightarrow> stat fs' p = Some (Csv df)"
proof -
  assume a: "to_csv fs df p = Inr fs'"
  from to_csv_target[OF a] obtain q where q: "resolve MAXSYMLINKS fs p = Some q"
    "\<not> anchor q" "normpath q = q" "fs' = fs(q \<mapsto> Csv df)"
    "fs q = None \<or> (\<exists>old. fs q = Some (Csv old))" by blast
  have l': "lookup fs' q = Some (Csv df)" using q by (simp add: lookup_upd)
  have r': "resolve n fs' p' = Some q" if "resolve n fs p' = Some q" for n p'
    using that
  proof (induction n arbitrary: p')
    case 0
    then show ?case by simp
  next
    case (Suc n)
    show ?case
    proof (cases "normpath p' = q")
      case True
      then have "lookup fs' p' = Some (Csv df)" using q by (simp add: lookup_upd)
      with True show ?thesis by simp
    next
      case False
      then have "lookup fs' p' = lookup fs p'" using q by (simp add: lookup_upd)
      with Suc False show ?thesis by (auto split: option.splits node.splits)
    qed
  qed
  from r'[OF q(1)] l' show ?thesis by (simp add: stat_def)
qed

section \<open>Facts about tables and the steps of a placement\<close>

lemma enum_cols: "map cols (map (\<lambda>(i, r). r\<lparr>name := int i\<rparr>) (enumerate n df)) = map cols df"
  by (induction df arbitrary: n) (auto simp: cols_def)

lemma enum_uid: "map hashed_uid (map (\<lambda>(i, r). r\<lparr>name := int i\<rparr>) (enumerate n df)) = map hashed_uid df"
  by (induction df arbitrary: n) auto

lemma enum_idem:
  "map (\<lambda>(i, r). r\<lparr>name := int i\<rparr>) (enumerate n (map (\<lambda>(i, r). r\<lparr>name := int i\<rparr>) (enumerate n df))) =
   map (\<lambda>(i, r). r\<lparr>name := int i\<rparr>) (enumerate n df)"
  by (induction df arbitrary: n) auto

lemma cols_reset_index: "map cols (reset_index df) = map cols df"
  unfolding reset_index_def by (rule enum_cols)

lemma uid_reset_index: "map hashed_uid (reset_index df) = map hashed_uid df"
  unfolding reset_index_def by (rule enum_uid)

lemma reset_index_idem: "reset_index (reset_index df) = reset_index df"
  unfolding reset_index_def by (rule enum_idem)

lemma length_reset_index: "length (reset_index df) = length df"
  by (simp add: reset_index_def)

lemma uid_cols: "hashed_uid (cols r) = hashed_uid r"
  by (simp add: cols_def)

lemma merge_rows_prefix: "prefix df (merge_rows df row)"
  by (simp add: merge_rows_def)

lemma merge_rows_has: "hashed_uid row \<in> hashed_uid ` set (merge_rows df row)"
proof (cases "filter (\<lambda>r. hashed_uid r = hashed_uid row) df = []")
  case True
  then show ?thesis by (simp add: merge_rows_def)
next
  case False
  then obtain r where "r \<in> set df" "hashed_uid r = hashed_uid row"
    by (auto simp: filter_empty_conv)
  then have "hashed_uid row \<in> hashed_uid ` set df" by (metis imageI)
  with False show ?thesis by (simp add: merge_rows_def)
qed

lemma merge_rows_distinct:
  "distinct (map hashed_uid df) \<Longrightarrow> distinct (map hashed_uid (merge_rows df row))"
  by (auto simp: merge_rows_def filter_empty_conv)

lemma merge_rows_present:
  "hashed_uid row \<in> hashed_uid ` set df \<Longrightarrow> merge_rows df row = df"
  by (auto simp: merge_rows_def filter_empty_conv)

lemma map_le_grows: "fs \<subseteq>\<^sub>m fs' \<Longrightarrow> grows fs fs'"
  unfolding grows_def map_le_def by (metis domI prefix_order.order_refl)

lemma map_le_stat: "fs \<subseteq>\<^sub>m fs' \<Longrightarrow> stat fs p = Some nd \<Longrightarrow> stat fs' p = Some nd"
proof -
  assume le: "fs \<subseteq>\<^sub>m fs'" and s: "stat fs p = Some nd"
  from grows_stat[OF map_le_grows[OF le] s] obtain q where
    q: "lookup fs q = Some nd" "stat fs' p = lookup fs' q" by blast
  have "lookup fs' q = Some nd"
    using q(1) le unfolding lookup_def Let_def map_le_def
    by (auto split: if_splits) (metis domI)
  with q show ?thesis by simp
qed

lemma mkdir1_le: "mkdir1 fs p = Inr fs' \<Longrightarrow> fs \<subseteq>\<^sub>m fs'"
  by (auto simp: mkdir1_def map_le_def split: option.splits if_splits dest!: lookup_None)

lemma mkdir1_csv: "mkdir1 fs p = Inr fs' \<Longrightarrow> fs' k = Some nd \<Longrightarrow> nd \<noteq> Dir \<Longrightarrow> fs k = Some nd"
  by (auto simp: mkdir1_def split: option.splits if_splits)

lemma mkdir_parents_le: "fs \<subseteq>\<^sub>m snd (mkdir_parents fs r ps)"
proof (induction ps arbitrary: fs)
  case Nil
  then show ?case by (auto split: sum.splits dest: mkdir1_le)
next
  case (Cons c ps)
  let ?p = "\<lparr>root = r, parts = rev (c # ps)\<rparr>"
  show ?case
  proof (cases "lookup fs ?p = None \<and> \<not> exists fs (parent ?p)")
    case False
    then show ?thesis
      by (auto simp: Let_def split: sum.splits dest: mkdir1_le)
  next
    case True
    obtain res fs1 where r: "mkdir_parents fs r ps = (res, fs1)" by fastforce
    with Cons.IH[of fs] have g: "fs \<subseteq>\<^sub>m fs1" by simp
    show ?thesis
    proof (cases res)
      case (Inl e)
      with True r g show ?thesis by (simp add: Let_def)
    next
      case (Inr u)
      show ?thesis
      proof (cases "mkdir1 fs1 ?p")
        case (Inl e)
        with True r g Inr show ?thesis by (simp add: Let_def)
      next
        case (Inr fs2)
        with True r g \<open>res = Inr u\<close> mkdir1_le[of fs1 ?p fs2] show ?thesis
          by (auto simp: Let_def intro: map_le_trans)
      qed
    qed
  qed
qed

lemma mkdir_parents_csv:
  "snd (mkdir_parents fs r ps) k = Some nd \<Longrightarrow> nd \<noteq> Dir \<Longrightarrow> fs k = Some nd"
proof (induction ps arbitrary: fs)
  case Nil
  then show ?case by (auto split: sum.splits dest: mkdir1_csv)
next
  case (Cons c ps)
  let ?p = "\<lparr>root = r, parts = rev (c # ps)\<rparr>"
  show ?case
  proof (cases "lookup fs ?p = None \<and> \<not> exists fs (parent ?p)")
    case False
    with Cons.prems show ?thesis
      by (auto simp: Let_def split: sum.splits dest: mkdir1_csv)
  next
    case True
    obtain res fs1 where r: "mkdir_parents fs r ps = (res, fs1)" by fastforce
    have g: "fs1 k = Some nd \<Longrightarrow> fs k = Some nd"
      using Cons.IH[of fs] r Cons.prems(2) by simp
    show ?thesis
    proof (cases res)
      case (Inl e)
      with True r g Cons.prems show ?thesis by (simp add: Let_def)
    next
      case (Inr u)
      show ?thesis
      proof (cases "mkdir1 fs1 ?p")
        case (Inl e)
        with True r g Inr Cons.prems show ?thesis by (simp add: Let_def)
      next
        case (Inr fs2)
        with True r g \<open>res = Inr u\<close> mkdir1_csv[of fs1 ?p fs2 k nd] Cons.prems show ?thesis
          by (auto simp: Let_def)
      qed
    qed
  qed
qed

lemma symlink_to_le: "symlink_to fs p t = Inr fs' \<Longrightarrow> fs \<subseteq>\<^sub>m fs'"
  by (auto simp: symlink_to_def map_le_def split: if_splits dest!: lookup_None)

lemma symlink_to_new:
  "symlink_to fs p t = Inr fs' \<Longrightarrow> fs' k = Some nd \<Longrightarrow> fs k = Some nd \<or> (k = normpath p \<and> nd = Symlink t)"
  by (auto simp: symlink_to_def split: if_splits)

lemma place_link_le: "fs \<subseteq>\<^sub>m snd (place_link fs sp src)"
proof -
  obtain res fs1 where m: "mkdir fs (parent sp) = (res, fs1)" by fastforce
  then have le: "fs \<subseteq>\<^sub>m fs1" using mkdir_parents_le[of fs "root (parent sp)" "rev (parts (parent sp))"]
    by (simp add: mkdir_def)
  show ?thesis
    using m le by (auto simp: place_link_def split: sum.splits dest!: symlink_to_le intro: map_le_trans)
qed

lemma place_link_new:
  assumes "snd (place_link fs sp src) k = Some nd" "nd \<noteq> Dir"
  shows "fs k = Some nd \<or> (k = normpath sp \<and> nd = Symlink src)"
proof -
  obtain res fs1 where m: "mkdir fs (parent sp) = (res, fs1)" by fastforce
  then have c: "fs1 k = Some nd \<Longrightarrow> fs k = Some nd"
    using mkdir_parents_csv[of fs "root (parent sp)" "rev (parts (parent sp))" k nd] assms(2)
    by (simp add: mkdir_def)
  show ?thesis
    using m c assms(1)
    by (auto simp: place_link_def split: sum.splits if_splits dest: symlink_to_new)
qed

lemma place_link_ok:
  assumes "place_link fs sp src = (Inr u, fs')"
  shows "is_dir fs' (parent sp) \<and> lookup fs' sp \<noteq> None"
proof -
  from assms obtain v fs1 where m: "mkdir fs (parent sp) = (Inr v, fs1)"
    by (auto simp: place_link_def split: prod.splits sum.splits)
  then have d: "is_dir fs1 (parent sp)" by (rule mkdir_is_dir)
  show ?thesis
  proof (cases "exists fs1 sp")
    case True
    with assms m have "fs' = fs1" by (simp add: place_link_def)
    with d True stat_lookup[of fs1 sp] show ?thesis by (simp add: exists_def)
  next
    case False
    with assms m have s: "symlink_to fs1 sp src = Inr fs'"
      by (auto simp: place_link_def split: sum.splits)
    from symlink_to_lookup[OF s] grows_is_dir[OF symlink_to_grows[OF s] d] show ?thesis by simp
  qed
qed

lemma read_csv_iff: "read_csv fs p = Inr df \<longleftrightarrow> stat fs p = Some (Csv df)"
  by (auto simp: read_csv_def split: option.splits node.splits)

lemma stat_Csv_node: "stat fs p = Some (Csv df) \<Longrightarrow> \<exists>q. fs q = Some (Csv df)"
  by (auto simp: stat_def lookup_def Let_def split: option.splits if_splits)

lemma to_csv_same: "stat fs p = Some (Csv df) \<Longrightarrow> to_csv fs df p = Inr fs"
proof -
  assume s: "stat fs p = Some (Csv df)"
  then obtain q where q: "resolve MAXSYMLINKS fs p = Some q" "lookup fs q = Some (Csv df)"
    by (auto simp: stat_def split: option.splits)
  then have "normpath q = q" by (auto dest: resolve_normal)
  with q(2) have "fs q = Some (Csv df)"
    by (auto simp: lookup_def Let_def split: if_splits)
  then have "fs(q \<mapsto> Csv df) = fs" by (rule map_upd_triv)
  with q show ?thesis by (simp add: to_csv_def)
qed

lemma to_csv_new:
  "to_csv fs df p = Inr fs' \<Longrightarrow> fs' k = Some nd \<Longrightarrow> fs k = Some nd \<or> nd = Csv df"
  using to_csv_target[of fs df p fs'] by (auto split: if_splits)

lemma merge_manifest_shape:
  assumes "merge_manifest fs dd row = (Inr u, fs')"
  shows "\<exists>dfp. to_csv fs (reset_index dfp) (joinpath (joinpath dd (Path (patient_id row))) (Path ''converted.csv'')) = Inr fs' \<and>
           (if exists fs (joinpath (joinpath dd (Path (patient_id row))) (Path ''converted.csv''))
            then \<exists>old. stat fs (joinpath (joinpath dd (Path (patient_id row))) (Path ''converted.csv'')) = Some (Csv old) \<and> dfp = merge_rows old row
            else dfp = [row])"
  using assms unfolding merge_manifest_def Let_def
  by (auto simp: read_csv_iff split: if_splits sum.splits)

lemma merge_manifest_fail: "merge_manifest fs dd row = (Inl e, fs') \<Longrightarrow> fs' = fs"
  unfolding merge_manifest_def Let_def by (auto split: if_splits sum.splits)

lemma merge_manifest_grows: "grows fs (snd (merge_manifest fs dd row))"
proof (cases "merge_manifest fs dd row")
  case (Pair res fs')
  show ?thesis
  proof (cases res)
    case (Inl e)
    with Pair merge_manifest_fail[of fs dd row e fs'] show ?thesis by (simp add: grows_refl)
  next
    case (Inr u)
    let ?csv = "joinpath (joinpath dd (Path (patient_id row))) (Path ''converted.csv'')"
    from merge_manifest_shape[of fs dd row u fs'] Pair Inr obtain dfp where
      t: "to_csv fs (reset_index dfp) ?csv = Inr fs'" and
      d: "if exists fs ?csv then \<exists>old. stat fs ?csv = Some (Csv old) \<and> dfp = merge_rows old row
          else dfp = [row]" by auto
    have "grows fs fs'"
    proof (rule to_csv_grows[OF t])
      fix old assume o: "stat fs ?csv = Some (Csv old)"
      then have "exists fs ?csv" by (simp add: exists_def)
      with d o have "dfp = merge_rows old row" by auto
      then show "prefix (map cols old) (map cols (reset_index dfp))"
        by (simp add: cols_reset_index merge_rows_prefix map_mono_prefix)
    qed
    with Pair show ?thesis by simp
  qed
qed

lemma merge_manifest_new:
  "snd (merge_manifest fs dd row) k = Some nd \<Longrightarrow> fs k = Some nd \<or> (\<exists>df. nd = Csv df)"
  unfolding merge_manifest_def Let_def
  by (auto split: if_splits sum.splits dest: to_csv_new)

lemma merge_manifest_written:
  assumes "merge_manifest fs dd row = (Inr u, fs')"
  shows "\<exists>df. stat fs' (joinpath (joinpath dd (Path (patient_id row))) (Path ''converted.csv'')) = Some (Csv df) \<and>
              reset_index df = df \<and> hashed_uid row \<in> hashed_uid ` set df \<and>
              ((\<forall>old. stat fs (joinpath (joinpath dd (Path (patient_id row))) (Path ''converted.csv'')) \<noteq> Some (Csv old)) \<longrightarrow> df = reset_index [row]) \<and>
              (\<forall>old. stat fs (joinpath (joinpath dd (Path (patient_id row))) (Path ''converted.csv'')) = Some (Csv old) \<longrightarrow> df = reset_index (merge_rows old row))"
proof -
  let ?csv = "joinpath (joinpath dd (Path (patient_id row))) (Path ''converted.csv'')"
  from merge_manifest_shape[OF assms] obtain dfp where
    t: "to_csv fs (reset_index dfp) ?csv = Inr fs'" and
    d: "if exists fs ?csv then \<exists>old. stat fs ?csv = Some (Csv old) \<and> dfp = merge_rows old row
        else dfp = [row]" by auto
  have h: "hashed_uid row \<in> hashed_uid ` set dfp"
    using d merge_rows_has[of row] by (auto split: if_splits)
  have "hashed_uid ` set (reset_index dfp) = hashed_uid ` set dfp"
    using uid_reset_index[of dfp] by (metis list.set_map)
  with h have h': "hashed_uid row \<in> hashed_uid ` set (reset_index dfp)" by simp
  have a: "(\<forall>old. stat fs ?csv \<noteq> Some (Csv old)) \<longrightarrow> reset_index dfp = reset_index [row]"
    using d by (auto split: if_splits)
  have b: "\<forall>old. stat fs ?csv = Some (Csv old) \<longrightarrow> reset_index dfp = reset_index (merge_rows old row)"
    using d by (auto simp: exists_def split: if_splits)
  from to_csv_stat[OF t] h' a b show ?thesis
    by (intro exI[of _ "reset_index dfp"]) (simp add: reset_index_idem)
qed

lemma merge_manifest_idem:
  assumes "stat fs (joinpath (joinpath dd (Path (patient_id row))) (Path ''converted.csv'')) = Some (Csv df)"
    "reset_index df = df" "hashed_uid row \<in> hashed_uid ` set df"
  shows "merge_manifest fs dd row = (Inr (), fs)"
  using assms to_csv_same[OF assms(1)]
  unfolding merge_manifest_def Let_def
  by (simp add: exists_def read_csv_def merge_rows_present)

lemma to_csv_unique:
  "manifests_unique fs \<Longrightarrow> distinct (map hashed_uid df) \<Longrightarrow> to_csv fs df p = Inr fs' \<Longrightarrow>
   manifests_unique fs'"
  unfolding manifests_unique_def
  by (metis node.inject(2) to_csv_new)

lemma merge_manifest_unique:
  assumes "manifests_unique fs"
  shows "manifests_unique (snd (merge_manifest fs dd row))"
proof (cases "merge_manifest fs dd row")
  case (Pair res fs')
  show ?thesis
  proof (cases res)
    case (Inl e)
    with Pair merge_manifest_fail[of fs dd row e fs'] assms show ?thesis by simp
  next
    case (Inr u)
    let ?csv = "joinpath (joinpath dd (Path (patient_id row))) (Path ''converted.csv'')"
    from merge_manifest_shape[of fs dd row u fs'] Pair Inr obtain dfp where
      t: "to_csv fs (reset_index dfp) ?csv = Inr fs'" and
      d: "if exists fs ?csv then \<exists>old. stat fs ?csv = Some (Csv old) \<and> dfp = merge_rows old row
          else dfp = [row]" by auto
    have "distinct (map hashed_uid dfp)"
    proof (cases "exists fs ?csv")
      case True
      with d obtain old where o: "stat fs ?csv = Some (Csv old)" "dfp = merge_rows old row" by auto
      from stat_Csv_node[OF o(1)] assms have "distinct (map hashed_uid old)"
        by (auto simp: manifests_unique_def)
      with o show ?thesis by (simp add: merge_rows_distinct)
    next
      case False
      with d show ?thesis by simp
    qed
    then have "distinct (map hashed_uid (reset_index dfp))" by (simp add: uid_reset_index)
    from to_csv_unique[OF assms this t] Pair show ?thesis by simp
  qed
qed

lemma place_link_unique:
  assumes "manifests_unique fs"
  shows "manifests_unique (snd (place_link fs sp src))"
  unfolding manifests_unique_def
proof (intro allI impI)
  fix k df assume "snd (place_link fs sp src) k = Some (Csv df)"
  from place_link_new[OF this] have "fs k = Some (Csv df)" by auto
  with assms show "distinct (map hashed_uid df)" by (auto simp: manifests_unique_def)
qed

lemma relative_row_cols:
  "relative_row self row = Inr row' \<Longrightarrow>
   patient_id row' = patient_id row \<and> hashed_uid row' = hashed_uid row \<and>
   modality row' = modality row \<and> name row' = name row"
  by (auto simp: relative_row_def Let_def split: if_splits sum.splits)

lemma add_object_shape:
  assumes "add_object_to_dataset self ds row fs = (Inr u, fs')"
  shows "\<exists>row' sp src fs2 v. relative_row self row = Inr row' \<and>
           link_paths self ds row' = Inr (sp, src) \<and> place_link fs sp src = (Inr v, fs2) \<and>
           merge_manifest fs2 (joinpath (working_directory self) (Path ds)) row' = (Inr u, fs')"
  using assms unfolding add_object_to_dataset_def Let_def
  by (auto split: sum.splits prod.splits)

lemma add_object_cases:
  "(\<exists>e. (relative_row self row = Inl e \<or>
        (\<exists>row'. relative_row self row = Inr row' \<and> link_paths self ds row' = Inl e)) \<and>
        add_object_to_dataset self ds row fs = (Inl e, fs)) \<or>
   (\<exists>row' sp src. relative_row self row = Inr row' \<and> link_paths self ds row' = Inr (sp, src) \<and>
      ((\<exists>e. fst (place_link fs sp src) = Inl e \<and>
           add_object_to_dataset self ds row fs = (Inl e, snd (place_link fs sp src))) \<or>
       ((\<exists>v. fst (place_link fs sp src) = Inr v) \<and>
           add_object_to_dataset self ds row fs =
             merge_manifest (snd (place_link fs sp src)) (joinpath (working_directory self) (Path ds)) row')))"
  unfolding add_object_to_dataset_def Let_def
  by (auto split: sum.splits prod.splits)

lemma add_object_grows: "grows fs (snd (add_object_to_dataset self ds row fs))"
  using add_object_cases[of self row ds fs]
  by (auto simp: grows_refl intro: map_le_grows[OF place_link_le]
      grows_trans[OF map_le_grows[OF place_link_le] merge_manifest_grows])

lemma add_object_unique:
  "manifests_unique fs \<Longrightarrow> manifests_unique (snd (add_object_to_dataset self ds row fs))"
  using add_object_cases[of self row ds fs]
    place_link_unique[of fs] merge_manifest_unique[OF place_link_unique[of fs]]
  by auto

lemma add_object_new_link:
  assumes "snd (add_object_to_dataset self ds row fs) k = Some (Symlink t)"
  shows "fs k = Some (Symlink t) \<or>
         (\<exists>sp. link_of self ds row = Some (sp, t) \<and> k = normpath sp)"
  using add_object_cases[of self row ds fs] assms
  by (auto simp: link_of_def dest!: merge_manifest_new dest: place_link_new)


lemma add_object_twice_aux:
  assumes "add_object_to_dataset self ds row fs = (Inr (), fs1)"
  shows "snd (add_object_to_dataset self ds row fs1) = fs1 \<and>
         (\<exists>df. read_csv fs1 (manifest_path self ds (patient_id row)) = Inr df \<and>
               hashed_uid row \<in> hashed_uid ` set df) \<and>
         (\<exists>sp src. link_of self ds row = Some (sp, src) \<and> lookup fs1 sp \<noteq> None)"
proof -
  let ?dd = "joinpath (working_directory self) (Path ds)"
  from add_object_shape[OF assms] obtain row' sp src fs2 v where
    r: "relative_row self row = Inr row'" and l: "link_paths self ds row' = Inr (sp, src)" and
    p: "place_link fs sp src = (Inr v, fs2)" and m: "merge_manifest fs2 ?dd row' = (Inr (), fs1)"
    by blast
  let ?csv = "joinpath (joinpath ?dd (Path (patient_id row'))) (Path ''converted.csv'')"
  have pid: "patient_id row' = patient_id row" "hashed_uid row' = hashed_uid row"
    using relative_row_cols[OF r] by auto
  from place_link_ok[OF p] have d2: "is_dir fs2 (parent sp)" and n2: "lookup fs2 sp \<noteq> None" by auto
  have g: "grows fs2 fs1" using merge_manifest_grows[of fs2 ?dd row'] m by simp
  from merge_manifest_written[OF m] obtain df where
    df: "stat fs1 ?csv = Some (Csv df)" "reset_index df = df" "hashed_uid row' \<in> hashed_uid ` set df"
    by blast
  have d1: "is_dir fs1 (parent sp)" using grows_is_dir[OF g d2] .
  have n1: "lookup fs1 sp \<noteq> None" using grows_lookup_Some[OF g n2] .
  have pl: "snd (place_link fs1 sp src) = fs1 \<and>
            (fst (place_link fs1 sp src) = Inr () \<or> (\<exists>e. fst (place_link fs1 sp src) = Inl e))"
    using mkdir_idem[OF d1] n1 by (auto simp: place_link_def symlink_to_def)
  have mm: "merge_manifest fs1 ?dd row' = (Inr (), fs1)"
    using merge_manifest_idem[OF df] .
  have "snd (add_object_to_dataset self ds row fs1) = fs1"
    using add_object_cases[of self row ds fs1] r l pl mm by auto
  moreover have "read_csv fs1 (manifest_path self ds (patient_id row)) = Inr df"
    using df(1) pid by (simp add: read_csv_iff manifest_path_def)
  moreover have "link_of self ds row = Some (sp, src)"
    using r l by (simp add: link_of_def)
  ultimately show ?thesis using df(3) pid n1 by auto
qed

section \<open>Repeated calls\<close>

lemma pool_unique: "manifests_unique pool"
  by (simp add: manifests_unique_def pool_def)

lemma add_row_a_ok: "fst (add_object_to_dataset pd ''clean'' row_a pool) = Inr ()"
  by code_simp



section \<open>Rows of a manifest\<close>

lemma call_sequence_unique:
  "manifests_unique fs \<Longrightarrow> manifests_unique (call_sequence self ds rows fs)"
  unfolding call_sequence_def
  by (induction rows arbitrary: fs) (auto intro: add_object_unique)

lemma call_sequence_grows: "grows fs (call_sequence self ds rows fs)"
  unfolding call_sequence_def
proof (induction rows arbitrary: fs)
  case Nil
  then show ?case by (simp add: grows_refl)
next
  case (Cons r rows)
  from grows_trans[OF add_object_grows Cons.IH] show ?case by simp
qed

lemma readd_keeps:
  assumes "stat fs (manifest_path self ds (patient_id row)) = Some (Csv df)"
    and "hashed_uid row \<in> hashed_uid ` set df"
  shows "\<exists>df'. stat (snd (add_object_to_dataset self ds row fs)) (manifest_path self ds (patient_id row))
            = Some (Csv df') \<and> df' \<in> {df, reset_index df}"
proof -
  let ?csv = "manifest_path self ds (patient_id row)"
  let ?dd = "joinpath (working_directory self) (Path ds)"
  from add_object_cases[of self row ds fs] show ?thesis
  proof (elim disjE exE conjE)
    fix e assume "add_object_to_dataset self ds row fs = (Inl e, fs)"
    with assms show ?thesis by simp
  next
    fix e row' assume "add_object_to_dataset self ds row fs = (Inl e, fs)"
    with assms show ?thesis by simp
  next
    fix row' sp src e
    assume "add_object_to_dataset self ds row fs = (Inl e, snd (place_link fs sp src))"
    with map_le_stat[OF place_link_le assms(1), of sp src] show ?thesis by simp
  next
    fix row' sp src v
    assume r: "relative_row self row = Inr row'"
      and a: "add_object_to_dataset self ds row fs = merge_manifest (snd (place_link fs sp src)) ?dd row'"
    let ?fs2 = "snd (place_link fs sp src)"
    have pid: "patient_id row' = patient_id row" "hashed_uid row' = hashed_uid row"
      using relative_row_cols[OF r] by auto
    have s2: "stat ?fs2 (joinpath (joinpath ?dd (Path (patient_id row'))) (Path ''converted.csv'')) = Some (Csv df)"
      using map_le_stat[OF place_link_le assms(1), of sp src] pid by (simp add: manifest_path_def)
    obtain res fs' where m: "merge_manifest ?fs2 ?dd row' = (res, fs')" by fastforce
    show ?thesis
    proof (cases res)
      case (Inl e)
      with m merge_manifest_fail[of ?fs2 ?dd row' e fs'] a s2 pid show ?thesis
        by (simp add: manifest_path_def)
    next
      case (Inr u)
      from merge_manifest_written[of ?fs2 ?dd row' u fs'] m Inr s2 obtain df' where
        "stat fs' (joinpath (joinpath ?dd (Path (patient_id row'))) (Path ''converted.csv'')) = Some (Csv df')"
        "df' = reset_index (merge_rows df row')" by auto
      with a m pid assms(2) show ?thesis
        by (simp add: manifest_path_def merge_rows_present)
    qed
  qed
qed

text \<open>
  C2. After any sequence of calls of \<^verbatim>\<open>add_object_to_dataset\<close> on a disk on which no table
  has two rows with the same \<open>hashed_uid\<close> (a disk with no manifest, for one), the manifest of
  a patient has no two rows with the same \<open>hashed_uid\<close>; and adding a row whose
  \<open>hashed_uid\<close> is already in that manifest leaves the manifest with the same rows, the
  fields of each as they were.
\<close>

theorem manifest_rows_unique:
  assumes "manifests_unique fs"
    and "read_csv (call_sequence self dataset_name rows fs) (manifest_path self dataset_name pat) = Inr df"
  shows "distinct (map hashed_uid df) \<and>
         (\<forall>row. patient_id row = pat \<and> hashed_uid row \<in> hashed_uid ` set df \<longrightarrow>
            (\<exists>df'. read_csv (snd (add_object_to_dataset self dataset_name row
                                   (call_sequence self dataset_name rows fs)))
                      (manifest_path self dataset_name pat) = Inr df' \<and>
                   map cols df' = map cols df))"
proof
  obtain q where "call_sequence self dataset_name rows fs q = Some (Csv df)"
    using assms(2) stat_Csv_node[of "call_sequence self dataset_name rows fs" _ df]
    by (auto simp: read_csv_iff)
  with call_sequence_unique[OF assms(1), of self dataset_name rows]
  show "distinct (map hashed_uid df)" by (auto simp: manifests_unique_def)
next
  show "\<forall>row. patient_id row = pat \<and> hashed_uid row \<in> hashed_uid ` set df \<longrightarrow>
            (\<exists>df'. read_csv (snd (add_object_to_dataset self dataset_name row
                                   (call_sequence self dataset_name rows fs)))
                      (manifest_path self dataset_name pat) = Inr df' \<and>
                   map cols df' = map cols df)"
  proof (intro allI impI)
    fix row :: series assume r: "patient_id row = pat \<and> hashed_uid row \<in> hashed_uid ` set df"
    with assms(2) have "stat (call_sequence self dataset_name rows fs)
        (manifest_path self dataset_name (patient_id row)) = Some (Csv df)"
      by (simp add: read_csv_iff)
    from readd_keeps[OF this] r obtain df' where
      "stat (snd (add_object_to_dataset self dataset_name row (call_sequence self dataset_name rows fs)))
         (manifest_path self dataset_name pat) = Some (Csv df')" "df' \<in> {df, reset_index df}"
      by auto
    then show "\<exists>df'. read_csv (snd (add_object_to_dataset self dataset_name row
                                   (call_sequence self dataset_name rows fs)))
                      (manifest_path self dataset_name pat) = Inr df' \<and>
                   map cols df' = map cols df"
      by (auto simp: read_csv_iff cols_reset_index)
  qed
qed

lemma two_rows_read:
  "read_csv (call_sequence pd ''clean'' [row_a, row_b, row_a] pool) (manifest_path pd ''clean'' ''P1'') =
     Inr [row_a\<lparr>name := 0, path := ''converted/P1/a''\<rparr>, row_b\<lparr>name := 1, path := ''converted/P1/b''\<rparr>]"
  by code_simp

theorem manifest_rows_unique_witness:
  "manifests_unique pool \<and>
   read_csv (call_sequence pd ''clean'' [row_a, row_b, row_a] pool) (manifest_path pd ''clean'' ''P1'') =
     Inr [row_a\<lparr>name := 0, path := ''converted/P1/a''\<rparr>, row_b\<lparr>name := 1, path := ''converted/P1/b''\<rparr>] \<and>
   patient_id row_b = ''P1'' \<and>
   hashed_uid row_b \<in> hashed_uid ` set [row_a\<lparr>name := 0, path := ''converted/P1/a''\<rparr>, row_b\<lparr>name := 1, path := ''converted/P1/b''\<rparr>] \<and>
   distinct (map hashed_uid [row_a\<lparr>name := 0, path := ''converted/P1/a''\<rparr>, row_b\<lparr>name := 1, path := ''converted/P1/b''\<rparr>]) \<and>
   (\<exists>df'. read_csv (snd (add_object_to_dataset pd ''clean'' row_b
                          (call_sequence pd ''clean'' [row_a, row_b, row_a] pool)))
             (manifest_path pd ''clean'' ''P1'') = Inr df' \<and>
          map cols df' = map cols [row_a\<lparr>name := 0, path := ''converted/P1/a''\<rparr>, row_b\<lparr>name := 1, path := ''converted/P1/b''\<rparr>])"
proof -
  have p: "patient_id row_b = ''P1'' \<and>
     hashed_uid row_b \<in> hashed_uid ` set [row_a\<lparr>name := 0, path := ''converted/P1/a''\<rparr>, row_b\<lparr>name := 1, path := ''converted/P1/b''\<rparr>]"
    by (simp add: row_a_def row_b_def)
  from manifest_rows_unique[OF pool_unique two_rows_read] p pool_unique two_rows_read
  show ?thesis by blast
qed

section \<open>Growth of a dataset\<close>

lemma prefix_cols_uids:
  assumes "prefix (map cols df) (map cols df')"
  shows "hashed_uid ` set df \<subseteq> hashed_uid ` set df'"
proof -
  have "prefix (map hashed_uid (map cols df)) (map hashed_uid (map cols df'))"
    using assms by (rule map_mono_prefix)
  then have "prefix (map hashed_uid df) (map hashed_uid df')"
    by (simp add: comp_def uid_cols)
  then have "set (map hashed_uid df) \<subseteq> set (map hashed_uid df')"
    by (rule set_mono_prefix)
  then show ?thesis by simp
qed

lemma add_rows_grows: "grows fs (snd (add_rows self ds rows fs))"
proof (induction rows arbitrary: fs)
  case Nil
  then show ?case by (simp add: grows_refl)
next
  case (Cons r rows)
  obtain res fs1 where a: "add_object_to_dataset self ds r fs = (res, fs1)" by fastforce
  then have g: "grows fs fs1" using add_object_grows[of fs self ds r] by simp
  show ?case
  proof (cases res)
    case (Inl e)
    with a g show ?thesis by simp
  next
    case (Inr u)
    with a grows_trans[OF g Cons.IH[of fs1]] show ?thesis by simp
  qed
qed

lemma add_rows_placed:
  "add_rows self ds rows fs = (Inr u, fs') \<Longrightarrow> r \<in> set rows \<Longrightarrow>
   \<exists>df. read_csv fs' (manifest_path self ds (patient_id r)) = Inr df \<and>
        hashed_uid r \<in> hashed_uid ` set df"
proof (induction rows arbitrary: fs)
  case Nil
  then show ?case by simp
next
  case (Cons x rows)
  from Cons.prems(1) obtain fs1 where a: "add_object_to_dataset self ds x fs = (Inr (), fs1)"
    and b: "add_rows self ds rows fs1 = (Inr u, fs')"
    by (auto split: prod.splits sum.splits)
  show ?case
  proof (cases "r \<in> set rows")
    case True
    from Cons.IH[OF b True] show ?thesis .
  next
    case False
    with Cons.prems(2) have rx: "r = x" by simp
    from add_object_twice_aux[OF a] obtain df where
      d: "stat fs1 (manifest_path self ds (patient_id x)) = Some (Csv df)"
         "hashed_uid x \<in> hashed_uid ` set df"
      by (auto simp: read_csv_iff)
    have "grows fs1 fs'" using add_rows_grows[of fs1 self ds rows] b by simp
    from grows_stat_Csv[OF this d(1)] obtain df' where
      "stat fs' (manifest_path self ds (patient_id x)) = Some (Csv df')"
      "prefix (map cols df) (map cols df')" by blast
    with d(2) prefix_cols_uids[of df df'] rx show ?thesis
      by (auto simp: read_csv_iff)
  qed
qed

lemma apply_relative_length: "apply_relative wd ps = Inr rs \<Longrightarrow> length rs = length ps"
  by (induction ps arbitrary: rs) (auto split: sum.splits)

lemma rewritten_ids:
  "length ps = length df \<Longrightarrow>
   map (\<lambda>r. (patient_id r, hashed_uid r)) (map (\<lambda>(r, p). r\<lparr>path := p\<rparr>) (zip df ps)) =
   map (\<lambda>r. (patient_id r, hashed_uid r)) df"
  by (induction df ps rule: list_induct2') auto

lemma prepare_from_dataframe_grows:
  "grows fs (snd (snd (prepare_from_dataframe self ds df fs)))"
  unfolding prepare_from_dataframe_def Let_def
  using add_rows_grows[of fs self ds]
  by (auto simp: grows_refl split: sum.splits prod.splits) (metis snd_conv)

lemma prepare_from_dataframe_placed:
  assumes "prepare_from_dataframe self ds df fs = (Inr u, df', fs')" "r \<in> set df"
  shows "\<exists>t. read_csv fs' (manifest_path self ds (patient_id r)) = Inr t \<and>
             hashed_uid r \<in> hashed_uid ` set t"
proof -
  from assms(1) obtain ps where ps: "apply_relative (working_directory self) (map path df) = Inr ps"
    and d: "df' = map (\<lambda>(r, p). r\<lparr>path := p\<rparr>) (zip df ps)"
    and a: "add_rows self ds df' fs = (Inr u, fs')"
    by (auto simp: prepare_from_dataframe_def Let_def split: sum.splits prod.splits)
  have "length ps = length df" using apply_relative_length[OF ps] by simp
  from rewritten_ids[OF this] d have
    "map (\<lambda>r. (patient_id r, hashed_uid r)) df' = map (\<lambda>r. (patient_id r, hashed_uid r)) df" by simp
  then have "set (map (\<lambda>r. (patient_id r, hashed_uid r)) df') = set (map (\<lambda>r. (patient_id r, hashed_uid r)) df)"
    by simp
  with assms(2) have "(patient_id r, hashed_uid r) \<in> set (map (\<lambda>r. (patient_id r, hashed_uid r)) df')"
    by (metis (no_types, lifting) image_eqI list.set_map)
  then obtain r' where r': "r' \<in> set df'" "patient_id r' = patient_id r" "hashed_uid r' = hashed_uid r"
    by auto
  from add_rows_placed[OF a r'(1)] r' show ?thesis by simp
qed

lemma prepare_cases:
  "(\<exists>e. prepare functions rcd self ds fn patients fs = (Inl e, fs) \<and> resolve_function functions fn = None) \<or>
   (\<exists>f. resolve_function functions fn = Some f \<and>
        prepare functions rcd self ds fn patients fs =
          (fst (prepare_from_dataframe self ds (f (rcd fs (working_directory self) patients)) fs),
           snd (snd (prepare_from_dataframe self ds (f (rcd fs (working_directory self) patients)) fs))))"
  unfolding prepare_def resolve_function_def Let_def
  by (auto split: preparation.splits option.splits prod.splits)

text \<open>
  C3. A run of \<^verbatim>\<open>prepare\<close> on a disk that already holds a dataset removes nothing, whatever
  the function selects and whatever the outcome: every link is still there with its target,
  and every manifest that could be read can still be read and has the rows it had, in
  order, as its first rows. When the run returns, the manifest of the patient of every
  selected row holds a row with the \<open>hashed_uid\<close> of that row. So the manifest of a patient
  holds the rows selected by all the runs.
\<close>

theorem prepare_never_removes:
  assumes "prepare functions read_converted_data self dataset_name preparation_function patients fs
             = (res, fs')"
  shows "(\<forall>p t. lookup fs p = Some (Symlink t) \<longrightarrow> lookup fs' p = Some (Symlink t)) \<and>
         (\<forall>p df. read_csv fs p = Inr df \<longrightarrow>
            (\<exists>df'. read_csv fs' p = Inr df' \<and> prefix (map cols df) (map cols df'))) \<and>
         (res = Inr () \<longrightarrow>
            (\<exists>f. resolve_function functions preparation_function = Some f \<and>
               (\<forall>r \<in> set (f (read_converted_data fs (working_directory self) patients)).
                  \<exists>df. read_csv fs' (manifest_path self dataset_name (patient_id r)) = Inr df \<and>
                       hashed_uid r \<in> hashed_uid ` set df)))"
proof -
  let ?sel = "\<lambda>f. f (read_converted_data fs (working_directory self) patients)"
  have g: "grows fs fs'"
    using prepare_cases[of "functions" read_converted_data self dataset_name preparation_function patients fs]
      assms prepare_from_dataframe_grows[of fs self dataset_name]
    by (auto simp: grows_refl)
  have a: "\<forall>p t. lookup fs p = Some (Symlink t) \<longrightarrow> lookup fs' p = Some (Symlink t)"
    using grows_lookup_Symlink[OF g] by blast
  have b: "\<forall>p df. read_csv fs p = Inr df \<longrightarrow>
            (\<exists>df'. read_csv fs' p = Inr df' \<and> prefix (map cols df) (map cols df'))"
    using grows_stat_Csv[OF g] by (simp add: read_csv_iff)
  have c: "\<exists>f. resolve_function functions preparation_function = Some f \<and>
               (\<forall>r \<in> set (?sel f).
                  \<exists>df. read_csv fs' (manifest_path self dataset_name (patient_id r)) = Inr df \<and>
                       hashed_uid r \<in> hashed_uid ` set df)" if ok: "res = Inr ()"
  proof -
    from prepare_cases[of "functions" read_converted_data self dataset_name preparation_function patients fs]
      assms ok obtain f where f: "resolve_function functions preparation_function = Some f"
      and p: "fst (prepare_from_dataframe self dataset_name (?sel f) fs) = Inr ()"
         "snd (snd (prepare_from_dataframe self dataset_name (?sel f) fs)) = fs'"
      by auto
    then obtain df' where "prepare_from_dataframe self dataset_name (?sel f) fs = (Inr (), df', fs')"
      by (metis prod.collapse)
    from prepare_from_dataframe_placed[OF this] f show ?thesis by blast
  qed
  from a b c show ?thesis by blast
qed

lemma clean_a_link:
  "lookup clean_a (Path ''/w/clean/P1/a'') = Some (Symlink (Path ''../../converted/P1/a''))"
  by code_simp

lemma clean_a_manifest:
  "read_csv clean_a (manifest_path pd ''clean'' ''P1'') = Inr [row_a\<lparr>name := 0, path := ''converted/P1/a''\<rparr>]"
  by code_simp

lemma clean_b_ok:
  "fst (prepare Map.empty pool_reader pd ''clean'' (Function (select_uid ''b'')) None clean_a) = Inr ()"
  by code_simp

theorem prepare_never_removes_witness:
  "fst (prepare Map.empty pool_reader pd ''clean'' (Function (select_uid ''b'')) None clean_a) = Inr () \<and>
   lookup clean_a (Path ''/w/clean/P1/a'') = Some (Symlink (Path ''../../converted/P1/a'')) \<and>
   lookup (snd (prepare Map.empty pool_reader pd ''clean'' (Function (select_uid ''b'')) None clean_a))
     (Path ''/w/clean/P1/a'') = Some (Symlink (Path ''../../converted/P1/a'')) \<and>
   read_csv clean_a (manifest_path pd ''clean'' ''P1'') = Inr [row_a\<lparr>name := 0, path := ''converted/P1/a''\<rparr>] \<and>
   (\<exists>df'. read_csv (snd (prepare Map.empty pool_reader pd ''clean'' (Function (select_uid ''b'')) None clean_a))
             (manifest_path pd ''clean'' ''P1'') = Inr df' \<and>
          prefix (map cols [row_a\<lparr>name := 0, path := ''converted/P1/a''\<rparr>]) (map cols df') \<and>
          hashed_uid row_b \<in> hashed_uid ` set df')"
proof -
  let ?run = "prepare Map.empty pool_reader pd ''clean'' (Function (select_uid ''b'')) None clean_a"
  have run: "?run = (Inr (), snd ?run)"
    using clean_b_ok by (metis prod.collapse)
  have sel: "row_b \<in> set (select_uid ''b'' (pool_reader clean_a (working_directory pd) None))"
    by (simp add: select_uid_def pool_reader_def row_a_def row_b_def)
  have pat: "patient_id row_b = ''P1''" by (simp add: row_b_def)
  note t = prepare_never_removes[OF run]
  from t clean_a_link have l: "lookup (snd ?run) (Path ''/w/clean/P1/a'') =
      Some (Symlink (Path ''../../converted/P1/a''))" by blast
  from t clean_a_manifest obtain df1 where d1:
    "read_csv (snd ?run) (manifest_path pd ''clean'' ''P1'') = Inr df1"
    "prefix (map cols [row_a\<lparr>name := 0, path := ''converted/P1/a''\<rparr>]) (map cols df1)" by blast
  from t have "\<forall>r \<in> set (select_uid ''b'' (pool_reader clean_a (working_directory pd) None)).
      \<exists>df. read_csv (snd ?run) (manifest_path pd ''clean'' (patient_id r)) = Inr df \<and>
           hashed_uid r \<in> hashed_uid ` set df"
    by (simp add: resolve_function_def)
  with sel pat d1(1) have "hashed_uid row_b \<in> hashed_uid ` set df1" by fastforce
  with clean_b_ok clean_a_link clean_a_manifest l d1 show ?thesis by blast
qed

section \<open>Absolute paths\<close>

lemma relative_to_error: "relative_to p q = Inl e \<Longrightarrow> e = ValueError"
  by (auto simp: relative_to_def split: if_splits)

lemma cols_set_reset_index: "cols ` set (reset_index df) = cols ` set df"
  using cols_reset_index[of df] by (metis list.set_map)

lemma merge_rows_set: "set (merge_rows old row) \<subseteq> insert row (set old)"
  by (auto simp: merge_rows_def)

lemma add_object_stored:
  assumes "add_object_to_dataset self ds row fs = (Inr (), fs')"
    and "relative_row self row = Inr row'"
  shows "\<exists>df. read_csv fs' (manifest_path self ds (patient_id row)) = Inr df \<and>
              hashed_uid row \<in> hashed_uid ` set df \<and>
              (\<forall>r \<in> set df. cols r = cols row' \<or>
                  (\<exists>k old. fs k = Some (Csv old) \<and> cols r \<in> cols ` set old))"
proof -
  let ?dd = "joinpath (working_directory self) (Path ds)"
  from add_object_shape[OF assms(1)] assms(2) obtain sp src fs2 v where
    p: "place_link fs sp src = (Inr v, fs2)" and m: "merge_manifest fs2 ?dd row' = (Inr (), fs')"
    by auto
  let ?csv = "joinpath (joinpath ?dd (Path (patient_id row'))) (Path ''converted.csv'')"
  have pid: "patient_id row' = patient_id row" "hashed_uid row' = hashed_uid row"
    using relative_row_cols[OF assms(2)] by auto
  from merge_manifest_written[OF m] obtain df where
    df: "stat fs' ?csv = Some (Csv df)" "hashed_uid row' \<in> hashed_uid ` set df"
      "(\<forall>old. stat fs2 ?csv \<noteq> Some (Csv old)) \<longrightarrow> df = reset_index [row']"
      "\<forall>old. stat fs2 ?csv = Some (Csv old) \<longrightarrow> df = reset_index (merge_rows old row')"
    by blast
  have "cols r = cols row' \<or> (\<exists>k old. fs k = Some (Csv old) \<and> cols r \<in> cols ` set old)"
    if r: "r \<in> set df" for r
  proof (cases "\<exists>old. stat fs2 ?csv = Some (Csv old)")
    case False
    with df(3) r have "cols r \<in> cols ` set (reset_index [row'])" by auto
    then show ?thesis unfolding cols_set_reset_index by simp
  next
    case True
    then obtain old where o: "stat fs2 ?csv = Some (Csv old)" by blast
    with df(4) r have "cols r \<in> cols ` set (reset_index (merge_rows old row'))" by auto
    then have c: "cols r \<in> cols ` insert row' (set old)"
      unfolding cols_set_reset_index using merge_rows_set[of old row'] by auto
    from stat_Csv_node[OF o] obtain k where "fs2 k = Some (Csv old)" by blast
    with place_link_new[of fs sp src k "Csv old"] p have "fs k = Some (Csv old)" by auto
    with c show ?thesis by auto
  qed
  with df(1,2) pid show ?thesis
    by (auto simp: read_csv_iff manifest_path_def)
qed

text \<open>
  C4. For a row whose path is absolute: when the path is not under the working directory,
  \<^verbatim>\<open>add_object_to_dataset\<close> raises \<^verbatim>\<open>ValueError\<close> (the integrity error of the
  specification) and the disk is as it was, so the object is not placed; when the path is
  under the working directory and the call returns, the manifest of the patient holds a row
  with the \<open>hashed_uid\<close> of the row, and each of its rows is the given row with the path
  made relative to the working directory (the index label aside), unless it is a row that
  a table on the disk already had.
\<close>

theorem absolute_path_relative_or_rejected:
  assumes "is_absolute (Path (path row))"
  shows "(\<forall>e. relative_to (Path (path row)) (working_directory self) = Inl e \<longrightarrow>
            add_object_to_dataset self dataset_name row fs = (Inl ValueError, fs)) \<and>
         (\<forall>rel fs'. relative_to (Path (path row)) (working_directory self) = Inr rel \<and>
              add_object_to_dataset self dataset_name row fs = (Inr (), fs') \<longrightarrow>
            (\<exists>df. read_csv fs' (manifest_path self dataset_name (patient_id row)) = Inr df \<and>
                  hashed_uid row \<in> hashed_uid ` set df \<and>
                  (\<forall>r \<in> set df. cols r = cols (row\<lparr>path := str rel\<rparr>) \<or>
                      (\<exists>k old. fs k = Some (Csv old) \<and> cols r \<in> cols ` set old))))"
proof (intro conjI allI impI)
  fix e assume "relative_to (Path (path row)) (working_directory self) = Inl e"
  with assms relative_to_error[of "Path (path row)" "working_directory self" e]
  show "add_object_to_dataset self dataset_name row fs = (Inl ValueError, fs)"
    by (simp add: add_object_to_dataset_def relative_row_def Let_def)
next
  fix rel fs'
  assume a: "relative_to (Path (path row)) (working_directory self) = Inr rel \<and>
             add_object_to_dataset self dataset_name row fs = (Inr (), fs')"
  with assms have "relative_row self row = Inr (row\<lparr>path := str rel\<rparr>)"
    by (simp add: relative_row_def Let_def)
  from add_object_stored[OF _ this] a
  show "\<exists>df. read_csv fs' (manifest_path self dataset_name (patient_id row)) = Inr df \<and>
                  hashed_uid row \<in> hashed_uid ` set df \<and>
                  (\<forall>r \<in> set df. cols r = cols (row\<lparr>path := str rel\<rparr>) \<or>
                      (\<exists>k old. fs k = Some (Csv old) \<and> cols r \<in> cols ` set old))"
    by blast
qed

lemma row_a_relative:
  "relative_to (Path (path row_a)) (working_directory pd) = Inr (Path ''converted/P1/a'')"
  by code_simp

lemma row_out_relative:
  "relative_to (Path (path row_out)) (working_directory pd) = Inl ValueError"
  by code_simp

lemma pool_no_table: "pool k \<noteq> Some (Csv old)"
  by (simp add: pool_def)

theorem absolute_path_relative_or_rejected_witness:
  "is_absolute (Path (path row_a)) \<and>
   relative_to (Path (path row_a)) (working_directory pd) = Inr (Path ''converted/P1/a'') \<and>
   fst (add_object_to_dataset pd ''clean'' row_a pool) = Inr () \<and>
   (\<exists>df. read_csv (snd (add_object_to_dataset pd ''clean'' row_a pool))
            (manifest_path pd ''clean'' (patient_id row_a)) = Inr df \<and>
         hashed_uid row_a \<in> hashed_uid ` set df \<and>
         (\<forall>r \<in> set df. cols r = cols (row_a\<lparr>path := ''converted/P1/a''\<rparr>))) \<and>
   is_absolute (Path (path row_out)) \<and>
   relative_to (Path (path row_out)) (working_directory pd) = Inl ValueError \<and>
   add_object_to_dataset pd ''clean'' row_out pool = (Inl ValueError, pool)"
proof -
  have abs_a: "is_absolute (Path (path row_a))" by code_simp
  have abs_out: "is_absolute (Path (path row_out))" by code_simp
  have s: "str (Path ''converted/P1/a'') = ''converted/P1/a''" by code_simp
  have run: "add_object_to_dataset pd ''clean'' row_a pool =
        (Inr (), snd (add_object_to_dataset pd ''clean'' row_a pool))"
    using add_row_a_ok by (metis prod.collapse)
  from absolute_path_relative_or_rejected[OF abs_a, of pd "''clean''" pool] row_a_relative run
  obtain df where "read_csv (snd (add_object_to_dataset pd ''clean'' row_a pool))
            (manifest_path pd ''clean'' (patient_id row_a)) = Inr df"
    "hashed_uid row_a \<in> hashed_uid ` set df"
    "\<forall>r \<in> set df. cols r = cols (row_a\<lparr>path := str (Path ''converted/P1/a'')\<rparr>) \<or>
       (\<exists>k old. pool k = Some (Csv old) \<and> cols r \<in> cols ` set old)"
    by blast
  then have a: "\<exists>df. read_csv (snd (add_object_to_dataset pd ''clean'' row_a pool))
            (manifest_path pd ''clean'' (patient_id row_a)) = Inr df \<and>
         hashed_uid row_a \<in> hashed_uid ` set df \<and>
         (\<forall>r \<in> set df. cols r = cols (row_a\<lparr>path := ''converted/P1/a''\<rparr>))"
    using pool_no_table s by auto
  from absolute_path_relative_or_rejected[OF abs_out, of pd "''clean''" pool] row_out_relative
  have "add_object_to_dataset pd ''clean'' row_out pool = (Inl ValueError, pool)" by blast
  with abs_a abs_out row_a_relative row_out_relative add_row_a_ok a show ?thesis by blast
qed

section \<open>Errors in a batch\<close>

lemma apply_relative_fails:
  "p \<in> set ps \<Longrightarrow> relative_to (Path p) wd = Inl e \<Longrightarrow> apply_relative wd ps = Inl ValueError"
  by (induction ps) (auto split: sum.splits dest: relative_to_error)

lemma add_rows_append:
  "add_rows self ds xs fs = (Inr u, fs1) \<Longrightarrow>
   add_rows self ds (xs @ ys) fs = add_rows self ds ys fs1"
  by (induction xs arbitrary: fs) (auto split: prod.splits sum.splits)

text \<open>
  C5, as the code has it. An error in one row ends the batch. When the path of any row is
  not under the working directory, \<^verbatim>\<open>prepare_from_dataframe\<close> raises \<^verbatim>\<open>ValueError\<close> while
  it rewrites the path column, before it places any row: the disk and the table are as they
  were. When the placement of a row raises, the rows after it are not processed; the rows
  before it stay placed.
\<close>

theorem error_in_one_row_aborts_batch:
  "(\<forall>r \<in> set df. \<forall>e. relative_to (Path (path r)) (working_directory self) = Inl e \<longrightarrow>
      prepare_from_dataframe self dataset_name df fs = (Inl ValueError, df, fs)) \<and>
   (\<forall>xs r ys e fs1 fs2. add_rows self dataset_name xs fs = (Inr (), fs1) \<and>
        add_object_to_dataset self dataset_name r fs1 = (Inl e, fs2) \<longrightarrow>
      add_rows self dataset_name (xs @ r # ys) fs = (Inl e, fs2))"
proof (intro conjI ballI allI impI)
  fix r e
  assume "r \<in> set df" "relative_to (Path (path r)) (working_directory self) = Inl e"
  then have "apply_relative (working_directory self) (map path df) = Inl ValueError"
    by (intro apply_relative_fails[of "path r"]) auto
  then show "prepare_from_dataframe self dataset_name df fs = (Inl ValueError, df, fs)"
    by (simp add: prepare_from_dataframe_def)
next
  fix xs r ys e fs1 fs2
  assume a: "add_rows self dataset_name xs fs = (Inr (), fs1) \<and>
             add_object_to_dataset self dataset_name r fs1 = (Inl e, fs2)"
  then have "add_rows self dataset_name (xs @ r # ys) fs = add_rows self dataset_name (r # ys) fs1"
    by (intro add_rows_append) auto
  with a show "add_rows self dataset_name (xs @ r # ys) fs = (Inl e, fs2)" by simp
qed

lemma row_stray_fails: "fst (add_object_to_dataset pd ''clean'' row_stray pool) = Inl ValueError"
  by code_simp

lemma row_stray_disk: "snd (add_object_to_dataset pd ''clean'' row_stray pool) = pool"
  by (simp add: add_object_to_dataset_def Let_def link_paths_def relative_row_def
      row_stray_def pd_def PrepareDataset_init_def Path_def parse_root_def is_absolute_def
      relative_to_def CONVERTED_DIR_NAME_def)

theorem error_in_one_row_aborts_batch_witness:
  "row_out \<in> set [row_a, row_out] \<and>
   relative_to (Path (path row_out)) (working_directory pd) = Inl ValueError \<and>
   prepare_from_dataframe pd ''clean'' [row_a, row_out] pool = (Inl ValueError, [row_a, row_out], pool) \<and>
   add_rows pd ''clean'' [] pool = (Inr (), pool) \<and>
   add_object_to_dataset pd ''clean'' row_stray pool = (Inl ValueError, pool) \<and>
   add_rows pd ''clean'' ([] @ row_stray # [row_a]) pool = (Inl ValueError, pool)"
proof -
  have m: "row_out \<in> set [row_a, row_out]" by simp
  have s: "add_object_to_dataset pd ''clean'' row_stray pool = (Inl ValueError, pool)"
    using row_stray_fails row_stray_disk by (metis prod.collapse)
  have n: "add_rows pd ''clean'' [] pool = (Inr (), pool)" by simp
  note t = error_in_one_row_aborts_batch[of "[row_a, row_out]" pd "''clean''" pool]
  from t m row_out_relative
  have 1: "prepare_from_dataframe pd ''clean'' [row_a, row_out] pool = (Inl ValueError, [row_a, row_out], pool)"
    by blast
  from t n s have 2: "add_rows pd ''clean'' ([] @ row_stray # [row_a]) pool = (Inl ValueError, pool)"
    by blast
  from m row_out_relative 1 n s 2 show ?thesis by blast
qed

text \<open>
  C5 as it is written fails: \<open>row_a\<close> can be placed on its own, but in a table with
  \<open>row_out\<close>, whose path is outside the working directory, the call raises and \<open>row_a\<close> is
  not placed: its link is not made and no manifest is written.
\<close>

theorem sibling_rows_not_placed:
  "fst (add_object_to_dataset pd ''clean'' row_a pool) = Inr () \<and>
   fst (prepare_from_dataframe pd ''clean'' [row_a, row_out] pool) = Inl ValueError \<and>
   lookup (snd (snd (prepare_from_dataframe pd ''clean'' [row_a, row_out] pool)))
      (Path ''/w/clean/P1/a'') = None \<and>
   read_csv (snd (snd (prepare_from_dataframe pd ''clean'' [row_a, row_out] pool)))
      (manifest_path pd ''clean'' ''P1'') = Inl OSError"
  by code_simp

section \<open>The target of a link\<close>

lemma relative_to_parts:
  "relative_to p q = Inr r \<Longrightarrow> root p = root q \<and> parts p = parts q @ parts r \<and> root r = []"
  by (auto simp: relative_to_def prefix_def split: if_splits)

lemma link_paths_shape:
  assumes "link_paths self ds row = Inr (sp, src)"
  shows "\<exists>stripped up. relative_to (Path (path row)) (Path CONVERTED_DIR_NAME) = Inr stripped \<and>
           sp = joinpath (joinpath (working_directory self) (Path ds)) stripped \<and>
           relative_to (parent sp) (working_directory self) = Inr up \<and>
           src = \<lparr>root = (if parts up = [] then ''/'' else []),
                  parts = replicate (length (parts up)) ''..'' @ parts (Path (path row))\<rparr>"
proof -
  from assms obtain stripped where s: "relative_to (Path (path row)) (Path CONVERTED_DIR_NAME) = Inr stripped"
    by (auto simp: link_paths_def Let_def split: sum.splits)
  with assms have sp: "sp = joinpath (joinpath (working_directory self) (Path ds)) stripped"
    by (auto simp: link_paths_def Let_def split: sum.splits)
  from assms s sp obtain up where u: "relative_to (parent sp) (working_directory self) = Inr up"
    and src: "src = Path (sep_join (map (\<lambda>_. ''..'') (parts up)) @ ''/'' @ str (Path (path row)))"
    by (auto simp: link_paths_def Let_def split: sum.splits)
  have r: "root (Path (path row)) = []"
    using relative_to_parts[OF s] by (simp add: Path_def CONVERTED_DIR_NAME_def parse_root_def)
  have v: "\<forall>x\<in>set (parts (Path (path row))). valid_part x"
    by (auto dest: Path_parts_valid)
  from src_path_eq[OF r v, of "parts up"] src s sp u show ?thesis by simp
qed

lemma resolve_target:
  assumes "root p = root wd" "parts p = parts wd @ ups" "''..'' \<notin> set ups" "ups \<noteq> []"
    and "root obj = []"
  shows "normpath (joinpath p \<lparr>root = [], parts = replicate (length ups) ''..'' @ parts obj\<rparr>) =
         normpath (joinpath wd obj)"
proof -
  let ?b = "root wd \<noteq> []"
  have "norm_parts ?b [] (parts wd @ ups @ replicate (length ups) ''..'' @ parts obj) =
        norm_parts ?b (rev (norm_parts ?b [] (parts wd))) (ups @ replicate (length ups) ''..'' @ parts obj)"
    by (rule norm_parts_append)
  also have "\<dots> = norm_parts ?b (rev (norm_parts ?b [] (parts wd))) (parts obj)"
    using assms(3) by (rule norm_parts_cancel)
  also have "\<dots> = norm_parts ?b [] (parts wd @ parts obj)"
    by (rule norm_parts_append[symmetric])
  finally show ?thesis
    using assms by (simp add: normpath_def joinpath_def is_absolute_def)
qed

text \<open>
  C6. The link that \<^verbatim>\<open>add_object_to_dataset\<close> computes for a row is at the dataset directory
  joined with the path of the object below the pool directory. When the directory of the
  link lies below the working directory, \<open>N\<close> levels down with \<open>N > 0\<close> and none of these
  levels written \<open>..\<close>, the target of the link is \<open>N\<close> times \<open>..\<close> followed by the path of
  the object relative to the working directory; it is not absolute; and resolved from the
  directory of the link it is the object in the pool under the working directory. Every
  link that a call of \<^verbatim>\<open>add_object_to_dataset\<close> adds to the disk is this link with this
  target.
\<close>

theorem link_target_relative:
  assumes "relative_row self row = Inr row'"
    and "link_paths self dataset_name row' = Inr (sp, src)"
    and "relative_to (parent sp) (working_directory self) = Inr up"
    and "parts up \<noteq> []" and "''..'' \<notin> set (parts up)"
  shows "(\<exists>stripped. relative_to (Path (path row')) (Path CONVERTED_DIR_NAME) = Inr stripped \<and>
            sp = joinpath (joinpath (working_directory self) (Path dataset_name)) stripped) \<and>
         src = \<lparr>root = [], parts = replicate (length (parts up)) ''..'' @ parts (Path (path row'))\<rparr> \<and>
         \<not> is_absolute src \<and>
         \<not> is_absolute (Path (path row')) \<and>
         normpath (joinpath (parent sp) src) =
           normpath (joinpath (working_directory self) (Path (path row'))) \<and>
         (\<forall>fs k t. snd (add_object_to_dataset self dataset_name row fs) k = Some (Symlink t) \<longrightarrow>
            fs k = Some (Symlink t) \<or> (k = normpath sp \<and> t = src))"
proof -
  from link_paths_shape[OF assms(2)] assms(3) obtain stripped where
    s: "relative_to (Path (path row')) (Path CONVERTED_DIR_NAME) = Inr stripped"
       "sp = joinpath (joinpath (working_directory self) (Path dataset_name)) stripped" and
    src: "src = \<lparr>root = (if parts up = [] then ''/'' else []),
                  parts = replicate (length (parts up)) ''..'' @ parts (Path (path row'))\<rparr>"
    by auto
  have r: "root (Path (path row')) = []"
    using relative_to_parts[OF s(1)] by (simp add: Path_def CONVERTED_DIR_NAME_def parse_root_def)
  from src assms(4) have src': "src = \<lparr>root = [],
      parts = replicate (length (parts up)) ''..'' @ parts (Path (path row'))\<rparr>" by simp
  have res: "normpath (joinpath (parent sp) src) =
             normpath (joinpath (working_directory self) (Path (path row')))"
    unfolding src'
    using relative_to_parts[OF assms(3)] assms(4,5) r
    by (intro resolve_target) auto
  have l: "link_of self dataset_name row = Some (sp, src)"
    using assms(1,2) by (simp add: link_of_def)
  have new: "\<forall>fs k t. snd (add_object_to_dataset self dataset_name row fs) k = Some (Symlink t) \<longrightarrow>
            fs k = Some (Symlink t) \<or> (k = normpath sp \<and> t = src)"
    using add_object_new_link[of self dataset_name row] l by fastforce
  from s src' r res new show ?thesis by (auto simp: is_absolute_def)
qed

lemma row_a_rel: "relative_row pd row_a = Inr (row_a\<lparr>path := ''converted/P1/a''\<rparr>)"
  by code_simp

lemma row_a_link:
  "link_paths pd ''clean'' (row_a\<lparr>path := ''converted/P1/a''\<rparr>) =
     Inr (Path ''/w/clean/P1/a'', Path ''../../converted/P1/a'')"
  by code_simp

lemma row_a_up:
  "relative_to (parent (Path ''/w/clean/P1/a'')) (working_directory pd) = Inr (Path ''clean/P1'')"
  by code_simp

lemma row_a_placed:
  "snd (add_object_to_dataset pd ''clean'' row_a pool) (normpath (Path ''/w/clean/P1/a'')) =
     Some (Symlink (Path ''../../converted/P1/a''))"
  by code_simp

theorem link_target_relative_witness:
  "relative_row pd row_a = Inr (row_a\<lparr>path := ''converted/P1/a''\<rparr>) \<and>
   link_paths pd ''clean'' (row_a\<lparr>path := ''converted/P1/a''\<rparr>) =
     Inr (Path ''/w/clean/P1/a'', Path ''../../converted/P1/a'') \<and>
   relative_to (parent (Path ''/w/clean/P1/a'')) (working_directory pd) = Inr (Path ''clean/P1'') \<and>
   parts (Path ''clean/P1'') \<noteq> [] \<and> ''..'' \<notin> set (parts (Path ''clean/P1'')) \<and>
   Path ''../../converted/P1/a'' =
     \<lparr>root = [], parts = replicate (length (parts (Path ''clean/P1''))) ''..'' @
        parts (Path (path (row_a\<lparr>path := ''converted/P1/a''\<rparr>)))\<rparr> \<and>
   \<not> is_absolute (Path ''../../converted/P1/a'') \<and>
   normpath (joinpath (parent (Path ''/w/clean/P1/a'')) (Path ''../../converted/P1/a'')) =
     normpath (joinpath (working_directory pd) (Path (path (row_a\<lparr>path := ''converted/P1/a''\<rparr>)))) \<and>
   snd (add_object_to_dataset pd ''clean'' row_a pool) (normpath (Path ''/w/clean/P1/a'')) =
     Some (Symlink (Path ''../../converted/P1/a'')) \<and>
   pool (normpath (Path ''/w/clean/P1/a'')) \<noteq> Some (Symlink (Path ''../../converted/P1/a''))"
proof -
  have ne: "parts (Path ''clean/P1'') \<noteq> []" by code_simp
  have nd: "''..'' \<notin> set (parts (Path ''clean/P1''))" by code_simp
  have fresh: "pool (normpath (Path ''/w/clean/P1/a'')) \<noteq> Some (Symlink (Path ''../../converted/P1/a''))"
    by (simp add: pool_def)
  from link_target_relative[OF row_a_rel row_a_link row_a_up ne nd]
    row_a_rel row_a_link row_a_up ne nd row_a_placed fresh
  show ?thesis by blast
qed

section \<open>The table of the caller\<close>

lemma apply_relative_ok:
  "\<forall>p \<in> set ps. \<exists>rel. relative_to (Path p) wd = Inr rel \<Longrightarrow>
   \<exists>rs. apply_relative wd ps = Inr rs \<and> length rs = length ps \<and>
        (\<forall>i < length ps. \<exists>rel. relative_to (Path (ps ! i)) wd = Inr rel \<and> rs ! i = str rel)"
proof (induction ps)
  case Nil
  then show ?case by simp
next
  case (Cons p ps)
  then obtain rel where rel: "relative_to (Path p) wd = Inr rel" by auto
  from Cons obtain rs where rs: "apply_relative wd ps = Inr rs" "length rs = length ps"
    "\<forall>i < length ps. \<exists>rel. relative_to (Path (ps ! i)) wd = Inr rel \<and> rs ! i = str rel"
    by auto
  have "\<forall>i < length (p # ps). \<exists>r. relative_to (Path ((p # ps) ! i)) wd = Inr r \<and> (str rel # rs) ! i = str r"
  proof (intro allI impI)
    fix i assume "i < length (p # ps)"
    then show "\<exists>r. relative_to (Path ((p # ps) ! i)) wd = Inr r \<and> (str rel # rs) ! i = str r"
      using rel rs(3) by (cases i) auto
  qed
  with rel rs(1,2) show ?case by simp
qed

text \<open>
  C10. \<^verbatim>\<open>prepare_from_dataframe\<close> assigns the rewritten column to the table it was given:
  when every path of the table is under the working directory, the table of the caller
  after the call, whatever the outcome of the placements, has in each row the path made
  relative to the working directory and the other columns and the label as they were.
  \<^verbatim>\<open>add_object_to_dataset\<close> works on a copy of the row it is given (\<open>relative_row\<close> makes the
  row it uses), so the row of the caller is not among the things it changes: its outcome
  is the result and the disk.
\<close>

theorem prepare_from_dataframe_rewrites_table:
  assumes "\<forall>r \<in> set df. \<exists>rel. relative_to (Path (path r)) (working_directory self) = Inr rel"
  shows "\<exists>res df' fs'. prepare_from_dataframe self dataset_name df fs = (res, df', fs') \<and>
           length df' = length df \<and>
           (\<forall>i < length df. \<exists>rel.
              relative_to (Path (path (df ! i))) (working_directory self) = Inr rel \<and>
              df' ! i = (df ! i)\<lparr>path := str rel\<rparr>)"
proof -
  from assms have "\<forall>p \<in> set (map path df). \<exists>rel. relative_to (Path p) (working_directory self) = Inr rel"
    by auto
  from apply_relative_ok[OF this] obtain ps where
    ps: "apply_relative (working_directory self) (map path df) = Inr ps" "length ps = length df"
      "\<forall>i < length df. \<exists>rel. relative_to (Path (map path df ! i)) (working_directory self) = Inr rel \<and>
          ps ! i = str rel"
    by auto
  let ?df' = "map (\<lambda>(r, p). r\<lparr>path := p\<rparr>) (zip df ps)"
  obtain res fs' where a: "add_rows self dataset_name ?df' fs = (res, fs')" by fastforce
  have run: "prepare_from_dataframe self dataset_name df fs = (res, ?df', fs')"
    using ps(1) a by (simp add: prepare_from_dataframe_def Let_def)
  have len: "length ?df' = length df" using ps(2) by simp
  have "\<forall>i < length df. \<exists>rel.
          relative_to (Path (path (df ! i))) (working_directory self) = Inr rel \<and>
          ?df' ! i = (df ! i)\<lparr>path := str rel\<rparr>"
  proof (intro allI impI)
    fix i assume i: "i < length df"
    with ps(3) obtain rel where
      "relative_to (Path (path (df ! i))) (working_directory self) = Inr rel" "ps ! i = str rel"
      by auto
    with i ps(2) show "\<exists>rel.
          relative_to (Path (path (df ! i))) (working_directory self) = Inr rel \<and>
          ?df' ! i = (df ! i)\<lparr>path := str rel\<rparr>" by simp
  qed
  with run len show ?thesis by blast
qed

lemma rows_relative:
  "\<forall>r \<in> set [row_a, row_b]. \<exists>rel. relative_to (Path (path r)) (working_directory pd) = Inr rel"
proof -
  have "relative_to (Path (path row_b)) (working_directory pd) = Inr (Path ''converted/P1/b'')"
    by code_simp
  with row_a_relative show ?thesis by simp
qed

theorem prepare_from_dataframe_rewrites_table_witness:
  "relative_to (Path (path row_a)) (working_directory pd) = Inr (Path ''converted/P1/a'') \<and>
   relative_to (Path (path row_b)) (working_directory pd) = Inr (Path ''converted/P1/b'') \<and>
   (\<exists>res df' fs'. prepare_from_dataframe pd ''clean'' [row_a, row_b] pool = (res, df', fs') \<and>
      length df' = 2 \<and>
      df' ! 0 = row_a\<lparr>path := str (Path ''converted/P1/a'')\<rparr> \<and>
      df' ! 1 = row_b\<lparr>path := str (Path ''converted/P1/b'')\<rparr>)"
proof -
  have b: "relative_to (Path (path row_b)) (working_directory pd) = Inr (Path ''converted/P1/b'')"
    by code_simp
  from prepare_from_dataframe_rewrites_table[OF rows_relative, of "''clean''" pool]
  obtain res df' fs' where r: "prepare_from_dataframe pd ''clean'' [row_a, row_b] pool = (res, df', fs')"
    "length df' = length [row_a, row_b]"
    "\<forall>i < length [row_a, row_b]. \<exists>rel.
          relative_to (Path (path ([row_a, row_b] ! i))) (working_directory pd) = Inr rel \<and>
          df' ! i = ([row_a, row_b] ! i)\<lparr>path := str rel\<rparr>" by blast
  have "\<exists>rel. relative_to (Path (path ([row_a, row_b] ! 0))) (working_directory pd) = Inr rel \<and>
          df' ! 0 = ([row_a, row_b] ! 0)\<lparr>path := str rel\<rparr>"
    using r(3)[rule_format, of 0] by simp
  with row_a_relative have 0: "df' ! 0 = row_a\<lparr>path := str (Path ''converted/P1/a'')\<rparr>" by simp
  have "\<exists>rel. relative_to (Path (path ([row_a, row_b] ! 1))) (working_directory pd) = Inr rel \<and>
          df' ! 1 = ([row_a, row_b] ! 1)\<lparr>path := str rel\<rparr>"
    using r(3)[rule_format, of 1] by simp
  with b have 1: "df' ! 1 = row_b\<lparr>path := str (Path ''converted/P1/b'')\<rparr>" by simp
  from r(1,2) 0 1 row_a_relative b show ?thesis by auto
qed

section \<open>The structure accessor\<close>




lemma init_shape:
  "StructureSet_init d row m = (Inr self, d0) \<Longrightarrow>
   d0 = d \<and> cache self = Map.empty \<and> structure_mapping self = m \<and>
   structure_set_path self = Path (path row) \<and> modality row = ''RTSTRUCT''"
  by (auto simp: StructureSet_init_def Let_def split: if_splits)

lemma getitem_cached:
  "resolved_name f self y \<in> set (structure_names self) \<Longrightarrow>
   cache self (resolved_name f self y) = Some v \<Longrightarrow>
   getitem f self y d = (Inr v, self, d)"
  by (simp add: getitem_def resolved_name_def Let_def)

lemma getitem_first:
  assumes "getitem f self x d = (Inr v, self1, d1)" "cache self (resolved_name f self x) = None"
  shows "resolved_name f self x \<in> set (structure_names self) \<and>
         self1 = self\<lparr>cache := (cache self)(resolved_name f self x \<mapsto> v)\<rparr> \<and>
         d1 = d\<lparr>reads := reads d @
           [str (joinpath (structure_set_path self) (Path (resolved_name f self x @ ''.nii.gz'')))]\<rparr> \<and>
         images d (str (joinpath (structure_set_path self) (Path (resolved_name f self x @ ''.nii.gz'')))) = Some v"
  using assms unfolding getitem_def resolved_name_def Let_def
  by (auto split: if_splits option.splits)

text \<open>
  C7. Constructing the accessor reads no volume: the disk, with its log of reads, is as it
  was, and the cache is empty. When the first lookup of a name on the new accessor
  returns a volume, it has read one volume, the file of the resolved name, and has put it
  in the cache under the resolved name; a later lookup of any name that resolves to the
  same name, the same name for one, returns that volume and leaves the accessor and the
  disk, with the log of reads, as they are. So \<open>get(x)\<close> twice is one read.
\<close>

theorem lazy_cached_lookup:
  assumes "StructureSet_init d row m = (Inr self, d0)"
    and "getitem f self x d0 = (Inr v, self1, d1)"
  shows "d0 = d \<and> cache self = Map.empty \<and>
         reads d1 = reads d @
           [str (joinpath (structure_set_path self) (Path (resolved_name f self x @ ''.nii.gz'')))] \<and>
         cache self1 (resolved_name f self x) = Some v \<and>
         (\<forall>y. resolved_name f self1 y = resolved_name f self x \<longrightarrow>
              getitem f self1 y d1 = (Inr v, self1, d1))"
proof -
  from init_shape[OF assms(1)] have i: "d0 = d" "cache self = Map.empty" by auto
  then have "cache self (resolved_name f self x) = None" by simp
  from getitem_first[OF assms(2) this] have
    g: "resolved_name f self x \<in> set (structure_names self)"
       "self1 = self\<lparr>cache := (cache self)(resolved_name f self x \<mapsto> v)\<rparr>"
       "d1 = d0\<lparr>reads := reads d0 @
           [str (joinpath (structure_set_path self) (Path (resolved_name f self x @ ''.nii.gz'')))]\<rparr>"
    by auto
  have c: "cache self1 (resolved_name f self x) = Some v" using g(2) by simp
  have n: "structure_names self1 = structure_names self" using g(2) by simp
  have "getitem f self1 y d1 = (Inr v, self1, d1)"
    if "resolved_name f self1 y = resolved_name f self x" for y
    using that g(1) c n by (intro getitem_cached) auto
  with i g(3) c show ?thesis by simp
qed

lemma init_rt:
  "fst (StructureSet_init disk_rt row_rt (Some names_map)) =
     Inr \<lparr>structure_set_path = Path ''/w/converted/P1/structures/s'',
          structure_names = [''heart'', ''lung_l''],
          structure_mapping = Some names_map, cache = Map.empty\<rparr>"
  by (simp add: StructureSet_init_def Let_def row_rt_def names_map_def)

lemma init_acc_rt: "StructureSet_init disk_rt row_rt (Some names_map) = (Inr acc_rt, disk_rt)"
  by (simp add: StructureSet_init_def Let_def row_rt_def names_map_def acc_rt_def)

lemma get_left_lung: "fst (getitem underscore_resolver acc_rt ''left lung'' disk_rt) = Inr 2"
  by code_simp

lemma resolve_left_lung: "resolved_name underscore_resolver acc_rt ''left lung'' = ''lung_l''"
  by code_simp

lemma resolve_Lung_L:
  "resolved_name underscore_resolver
     (fst (snd (getitem underscore_resolver acc_rt ''left lung'' disk_rt))) ''Lung_L'' = ''lung_l''"
  by code_simp

theorem lazy_cached_lookup_witness:
  "StructureSet_init disk_rt row_rt (Some names_map) = (Inr acc_rt, disk_rt) \<and>
   fst (getitem underscore_resolver acc_rt ''left lung'' disk_rt) = Inr 2 \<and>
   reads disk_rt = [] \<and>
   reads (snd (snd (getitem underscore_resolver acc_rt ''left lung'' disk_rt))) =
     [''/w/converted/P1/structures/s/lung_l.nii.gz''] \<and>
   cache (fst (snd (getitem underscore_resolver acc_rt ''left lung'' disk_rt))) ''lung_l'' = Some 2 \<and>
   getitem underscore_resolver (fst (snd (getitem underscore_resolver acc_rt ''left lung'' disk_rt)))
       ''Lung_L'' (snd (snd (getitem underscore_resolver acc_rt ''left lung'' disk_rt))) =
     (Inr 2, fst (snd (getitem underscore_resolver acc_rt ''left lung'' disk_rt)),
      snd (snd (getitem underscore_resolver acc_rt ''left lung'' disk_rt)))"
proof -
  let ?g = "getitem underscore_resolver acc_rt ''left lung'' disk_rt"
  have run: "?g = (Inr 2, fst (snd ?g), snd (snd ?g))"
    using get_left_lung by (metis prod.collapse)
  have fl: "str (joinpath (structure_set_path acc_rt) (Path (''lung_l'' @ ''.nii.gz''))) =
      ''/w/converted/P1/structures/s/lung_l.nii.gz''" by code_simp
  have r0: "reads disk_rt = []" by (simp add: disk_rt_def)
  note t = lazy_cached_lookup[OF init_acc_rt run]
  from t have 1: "reads (snd (snd ?g)) = [''/w/converted/P1/structures/s/lung_l.nii.gz'']"
    using resolve_left_lung fl r0 by simp
  from t have 2: "cache (fst (snd ?g)) ''lung_l'' = Some 2"
    using resolve_left_lung by simp
  from t resolve_Lung_L resolve_left_lung
  have 3: "getitem underscore_resolver (fst (snd ?g)) ''Lung_L'' (snd (snd ?g)) =
     (Inr 2, fst (snd ?g), snd (snd ?g))" by simp
  from init_acc_rt get_left_lung r0 1 2 3 show ?thesis by blast
qed


lemma init_acc_plain: "StructureSet_init disk_rt row_rt None = (Inr acc_plain, disk_rt)"
  by (simp add: StructureSet_init_def Let_def row_rt_def acc_plain_def glob_nii_def disk_rt_def
      Path_def parse_root_def suffix_def)






lemma mapping_location_levels:
  "(\<exists>p. mapping_location self level = Inr p) \<longleftrightarrow>
   level \<in> {''project'', ''patient'', ''current_structure_set''}"
  by (auto simp: mapping_location_def)






end
